theory Spec2Isabelle
  imports Main "HOL-Library.Word"
begin

unbundle bit_operations_syntax

section \<open>The bit-field-extraction harness (help_function/src/math_bfe.cpp)\<close>

text \<open>
  \<^verbatim>\<open>bfe_slow<T>\<close> is the reference routine of the harness. The element type \<open>T\<close> is a
  word of any length; whether \<open>T\<close> is unsigned (\<^verbatim>\<open>std::is_unsigned_v<T>\<close>) is the first
  argument. \<open>pos\<close> and \<open>len\<close> are at most 255 and \<open>len\<close> is positive where
  \<open>pos + len - 1\<close> is computed, so the 32-bit arithmetic of the source never wraps and
  is written on \<open>nat\<close>. The loop over \<open>i\<close> assigns bit \<open>i\<close> of the result bitset.
\<close>

definition assign_bit :: "nat \<Rightarrow> bool \<Rightarrow> 'a::len word \<Rightarrow> 'a word" where
  "assign_bit i b r = (if b then set_bit i r else unset_bit i r)"

definition bfe_slow :: "bool \<Rightarrow> 'a::len word \<Rightarrow> 32 word \<Rightarrow> 32 word \<Rightarrow> 'a word" where
  "bfe_slow is_unsigned source bit_start num_bits =
     (let msb = LENGTH('a) - 1;
          pos = unat (bit_start AND 0xff);
          len = unat (num_bits AND 0xff);
          sbit = (if is_unsigned \<or> len = 0 then False
                  else bit source (min (pos + len - 1) msb))
      in fold (\<lambda>i r. assign_bit i
                 (if i < len \<and> pos + i \<le> msb then bit source (pos + i) else sbit) r)
              [0..<Suc msb] 0)"

text \<open>
  The five SYCL buffers of \<^verbatim>\<open>test\<close>. A kernel writes the buffer its accessor was built
  over; a host accessor reads the buffer it was built over. \<open>'t\<close> is the element type \<open>T\<close>.
\<close>

record 't buffers =
  source_buffer :: "'t list"
  dpct_results_buffer :: "'t list"
  slow_results_buffer :: "'t list"
  starts_buffer :: "32 word list"
  lengths_buffer :: "32 word list"

datatype test_error = LengthError

text \<open>The comparison loop of \<^verbatim>\<open>test\<close> (lines 113 to 122), counting the mismatches.\<close>

function count_failed :: "nat \<Rightarrow> nat \<Rightarrow> 'a list \<Rightarrow> 'a list \<Rightarrow> int \<Rightarrow> int" where
  "count_failed i N dpct_result_accessor slow_result_accessor failed =
     (if i < N
      then count_failed (Suc i) N dpct_result_accessor slow_result_accessor
             (if dpct_result_accessor ! i \<noteq> slow_result_accessor ! i
              then failed + 1 else failed)
      else failed)"
  by pat_completeness auto
termination
  by (relation "measure (\<lambda>(i, N, a, b, f). N - i)") auto

declare count_failed.simps [simp del]

text \<open>
  \<^verbatim>\<open>test<T>(Msg, N)\<close>. The routine under test, \<^verbatim>\<open>dpct::bfe_safe\<close>, belongs to a library
  outside the repository and is the parameter \<open>bfe_safe\<close>. The random draws of the first
  loop are the parameter \<open>rnd\<close>: \<open>rnd i\<close> is the triple drawn in iteration \<open>i\<close>. A negative
  \<open>N\<close> makes the \<^verbatim>\<open>std::vector\<close> constructor throw. The result is the pair of the
  printed failure count and the returned boolean \<^verbatim>\<open>!failed\<close>.
\<close>

definition test ::
  "('a::len word \<Rightarrow> 32 word \<Rightarrow> 32 word \<Rightarrow> 'a word) \<Rightarrow> bool \<Rightarrow>
   (nat \<Rightarrow> 'a word \<times> 32 word \<times> 32 word) \<Rightarrow> int \<Rightarrow> test_error + (int \<times> bool)" where
  "test bfe_safe is_unsigned rnd N =
     (if N < 0 then Inl LengthError
      else
        let n = nat N;
            sources = map (\<lambda>i. fst (rnd i)) [0..<n];
            starts = map (\<lambda>i. fst (snd (rnd i))) [0..<n];
            lengths = map (\<lambda>i. snd (snd (rnd i))) [0..<n];
            b0 = \<lparr>source_buffer = sources,
                  dpct_results_buffer = replicate n 0,
                  slow_results_buffer = replicate n 0,
                  starts_buffer = starts,
                  lengths_buffer = lengths\<rparr>;
            b1 = b0\<lparr>dpct_results_buffer :=
                     map (\<lambda>i. bfe_safe (source_buffer b0 ! i) (starts_buffer b0 ! i)
                                        (lengths_buffer b0 ! i)) [0..<n]\<rparr>;
            b2 = b1\<lparr>slow_results_buffer :=
                     map (\<lambda>i. bfe_slow is_unsigned (source_buffer b1 ! i) (starts_buffer b1 ! i)
                                        (lengths_buffer b1 ! i)) [0..<n]\<rparr>;
            dpct_result_accessor = dpct_results_buffer b2;
            slow_result_accessor = dpct_results_buffer b2;
            failed = count_failed 0 n dpct_result_accessor slow_result_accessor 0
        in Inr (failed, failed = 0))"

section \<open>The device mirror builder (QuickSilver/migrated/MC_Domain.hh)\<close>

subsection \<open>Addresses and the host domain model\<close>

text \<open>
  An address is tagged with the space it belongs to. \<open>Wild\<close> stands for the indeterminate
  content of an address-valued field in freshly \<^verbatim>\<open>malloc\<close>ed staging memory. A
  \<^verbatim>\<open>double\<close> is its 64-bit pattern; a C \<^verbatim>\<open>int\<close> is an \<open>int\<close> (the builder does no
  arithmetic on them, only the conversion of a count to \<^verbatim>\<open>size_t\<close>, written out in
  \<open>malloc_device\<close> and \<open>copy_in\<close>).
\<close>

datatype ptr = Null | HostP nat | DevP nat | Wild

type_synonym double = "64 word"

text \<open>
  The classes of the headers that are not part of the sources at hand are parameters:
  \<open>'v\<close> is \<^verbatim>\<open>MC_Vector\<close>, \<open>'fa\<close> is \<^verbatim>\<open>MC_Facet_Adjacency\<close>, \<open>'gp\<close> is
  \<^verbatim>\<open>MC_General_Plane\<close>, \<open>'bs\<close> is \<^verbatim>\<open>BulkStorage\<close>, and \<open>'cs\<close> collects the members of
  \<^verbatim>\<open>MC_Cell_State\<close> other than \<^verbatim>\<open>_total\<close>. A leading underscore of a member name is
  dropped or replaced by a letter (\<^verbatim>\<open>_total\<close> is \<open>total\<close>, \<^verbatim>\<open>_point\<close> of a connectivity
  cell is \<open>c_point\<close>, \<^verbatim>\<open>_facet\<close> of a geometry cell is \<open>g_facet\<close>); the members of the
  two device classes carry the suffix \<open>_d\<close> where the host class has the same name. A
  \<^verbatim>\<open>qs_vector<T>\<close> is the list of its elements, \<^verbatim>\<open>size()\<close> its length and
  \<^verbatim>\<open>outputPointer()\<close> the list itself.
\<close>

record 'cs MC_Cell_State =
  total :: ptr
  cs_other :: 'cs

record MC_Facet_Adjacency_Cell =
  num_points :: int
  num_facets :: int
  c_point :: ptr
  c_facet :: ptr

record MC_Facet_Geometry_Cell =
  g_facet :: ptr
  g_size :: int

record ('v, 'bs) MC_Mesh_Domain =
  domainGid :: int
  nbrDomainGid :: "int list"
  nbrRank :: "int list"
  node :: "'v list"
  cellConnectivity :: "MC_Facet_Adjacency_Cell list"
  cellGeometry :: "MC_Facet_Geometry_Cell list"
  connectivityFacetStorage :: 'bs
  connectivityPointStorage :: 'bs
  geomFacetStorage :: 'bs

record ('cs, 'v, 'bs) MC_Domain =
  domainIndex :: int
  global_domain :: int
  cell_state :: "'cs MC_Cell_State list"
  cachedCrossSectionStorage :: 'bs
  mesh :: "('v, 'bs) MC_Mesh_Domain"

record MC_Mesh_Domain_d =
  domainGid_d :: int
  nbrRank_d :: ptr
  nbrRankSize :: int
  node_d :: ptr
  nodeSize :: int
  cellConnectivity_d :: ptr
  cellConnectivitySize :: int
  cellGeometry_d :: ptr
  cellGeometrySize :: int

record MC_Domain_d =
  domainIndex_d :: int
  global_domain_d :: int
  cell_state_d :: ptr
  cell_stateSize :: int
  mesh_d :: MC_Mesh_Domain_d

subsection \<open>Memory, the allocator and the queue\<close>

text \<open>
  One element of an array in memory. \<open>VUninit\<close> is an element of an allocation that no
  copy has written yet.
\<close>

datatype ('cs, 'v, 'fa, 'gp) val =
    VUninit
  | VDouble double
  | VInt int
  | VVector 'v
  | VFacet 'fa
  | VPlane 'gp
  | VCellState "'cs MC_Cell_State"
  | VConn MC_Facet_Adjacency_Cell
  | VGeom MC_Facet_Geometry_Cell
  | VDomain MC_Domain_d

type_synonym ('cs, 'v, 'fa, 'gp) heap = "ptr \<Rightarrow> ('cs, 'v, 'fa, 'gp) val list option"

text \<open>
  The machine: host memory (the arrays the cells of the host model point to), device
  memory, and the state of the device runtime. \<open>next_free\<close> is the address the next
  device allocation returns; \<open>null_on_empty\<close> says whether an allocation of zero
  elements returns the null address; \<open>fails k\<close> says whether the runtime makes call
  number \<open>k\<close> fail (resource exhaustion, a transfer error); \<open>log\<close> records the outcome
  of every call issued to the runtime so far, oldest first.
\<close>

record ('cs, 'v, 'fa, 'gp) machine =
  hmem :: "nat \<Rightarrow> ('cs, 'v, 'fa, 'gp) val list option"
  dmem :: "nat \<Rightarrow> ('cs, 'v, 'fa, 'gp) val list option"
  next_free :: nat
  null_on_empty :: bool
  fails :: "nat \<Rightarrow> bool"
  log :: "bool list"

datatype error = AllocFailed | CopyFailed | BadAccess

type_synonym ('a, 's) dm = "'s \<Rightarrow> (error + 'a) \<times> 's"

definition ret :: "'a \<Rightarrow> ('a, 's) dm" where
  "ret x s = (Inr x, s)"

text \<open>
  Modelled from the spec: the macros \<^verbatim>\<open>safeCall\<close> and \<^verbatim>\<open>DPCT_CHECK_ERROR\<close> are not among
  the sources. Every fallible call is checked immediately, and a failure terminates the
  build: \<open>safeCall m f\<close> runs the call \<open>m\<close> and goes on with \<open>f\<close> only when \<open>m\<close>
  succeeded.
\<close>

definition safeCall :: "('a, 's) dm \<Rightarrow> ('a \<Rightarrow> ('b, 's) dm) \<Rightarrow> ('b, 's) dm" where
  "safeCall m f s = (case m s of (Inl e, s') \<Rightarrow> (Inl e, s') | (Inr x, s') \<Rightarrow> f x s')"

text \<open>The loop \<^verbatim>\<open>for (int j = lo; j < n; j++) body\<close> over a body that may abort.\<close>

function for_loop :: "nat \<Rightarrow> nat \<Rightarrow> (nat \<Rightarrow> 'a \<Rightarrow> ('a, 's) dm) \<Rightarrow> 'a \<Rightarrow> ('a, 's) dm" where
  "for_loop j n body a s =
     (if j < n
      then (case body j a s of
              (Inl e, s') \<Rightarrow> (Inl e, s')
            | (Inr a', s') \<Rightarrow> for_loop (Suc j) n body a' s')
      else (Inr a, s))"
  by pat_completeness auto
termination
  by (relation "measure (\<lambda>(j, n, body, a, s). n - j)") auto

declare for_loop.simps [simp del]

definition heap_of :: "('cs, 'v, 'fa, 'gp) machine \<Rightarrow> ('cs, 'v, 'fa, 'gp) heap" where
  "heap_of s p = (case p of HostP a \<Rightarrow> hmem s a | DevP a \<Rightarrow> dmem s a | _ \<Rightarrow> None)"

definition store ::
  "ptr \<Rightarrow> ('cs, 'v, 'fa, 'gp) val list \<Rightarrow> ('cs, 'v, 'fa, 'gp) machine \<Rightarrow> ('cs, 'v, 'fa, 'gp) machine" where
  "store p buf s =
     (case p of
        HostP a \<Rightarrow> s\<lparr>hmem := (hmem s)(a \<mapsto> buf)\<rparr>
      | DevP a \<Rightarrow> s\<lparr>dmem := (dmem s)(a \<mapsto> buf)\<rparr>
      | _ \<Rightarrow> s)"

definition logged :: "bool \<Rightarrow> ('cs, 'v, 'fa, 'gp) machine \<Rightarrow> ('cs, 'v, 'fa, 'gp) machine" where
  "logged ok s = s\<lparr>log := log s @ [ok]\<rparr>"

definition faulty :: "('cs, 'v, 'fa, 'gp) machine \<Rightarrow> bool" where
  "faulty s = fails s (length (log s))"

text \<open>
  The first \<open>n\<close> elements at an address; a count that is not positive reads nothing.
\<close>

definition read_mem :: "('cs, 'v, 'fa, 'gp) heap \<Rightarrow> ptr \<Rightarrow> int \<Rightarrow> ('cs, 'v, 'fa, 'gp) val list option" where
  "read_mem h p n =
     (if n \<le> 0 then Some []
      else (case h p of
              None \<Rightarrow> None
            | Some buf \<Rightarrow> if nat n \<le> length buf then Some (take (nat n) buf) else None))"

text \<open>
  Modelled from the spec: \<^verbatim>\<open>sycl::malloc_device<T>(n, queue)\<close>, a fallible allocation in
  the target address space. A negative \<open>n\<close> becomes a huge \<^verbatim>\<open>size_t\<close> and cannot be
  served. A successful allocation of \<open>n\<close> elements is a fresh array of \<open>n\<close> unwritten
  elements; for zero elements the address may be null.
\<close>

definition malloc_device :: "int \<Rightarrow> (ptr, ('cs, 'v, 'fa, 'gp) machine) dm" where
  "malloc_device n s =
     (if faulty s \<or> n < 0 then (Inl AllocFailed, logged False s)
      else if n = 0 \<and> null_on_empty s then (Inr Null, logged True s)
      else (Inr (DevP (next_free s)),
            logged True (s\<lparr>dmem := (dmem s)(next_free s \<mapsto> replicate (nat n) VUninit),
                           next_free := Suc (next_free s)\<rparr>)))"

text \<open>
  Modelled from the spec: \<^verbatim>\<open>queue.memcpy(dst, src, n * sizeof(T)).wait()\<close>, a fallible
  transfer of \<open>n\<close> elements. \<open>src\<close> is what the source holds (\<open>None\<close> when it has fewer
  than \<open>n\<close> elements). Nothing is transferred for \<open>n = 0\<close>. A transfer that leaves the
  extent of its source or of its destination has no defined behaviour in the source
  language; here it fails with \<open>BadAccess\<close>.
\<close>

definition copy_in ::
  "ptr \<Rightarrow> ('cs, 'v, 'fa, 'gp) val list option \<Rightarrow> int \<Rightarrow> (unit, ('cs, 'v, 'fa, 'gp) machine) dm" where
  "copy_in dst src n s =
     (if faulty s \<or> n < 0 then (Inl CopyFailed, logged False s)
      else if n = 0 then (Inr (), logged True s)
      else (case (src, heap_of s dst) of
              (Some vs, Some buf) \<Rightarrow>
                if nat n \<le> length buf
                then (Inr (), logged True (store dst (vs @ drop (nat n) buf) s))
                else (Inl BadAccess, logged False s)
            | _ \<Rightarrow> (Inl BadAccess, logged False s)))"

text \<open>A transfer whose source is an address.\<close>

definition memcpy :: "ptr \<Rightarrow> ptr \<Rightarrow> int \<Rightarrow> (unit, ('cs, 'v, 'fa, 'gp) machine) dm" where
  "memcpy dst src n s = copy_in dst (read_mem (heap_of s) src n) n s"

text \<open>
  A transfer whose source is a host array held by value (the data of a \<^verbatim>\<open>qs_vector\<close>
  or a staging array).
\<close>

definition local_src :: "'a list \<Rightarrow> int \<Rightarrow> 'a list option" where
  "local_src xs n = (if nat n \<le> length xs then Some (take (nat n) xs) else None)"

definition memcpy_from ::
  "ptr \<Rightarrow> ('cs, 'v, 'fa, 'gp) val list \<Rightarrow> int \<Rightarrow> (unit, ('cs, 'v, 'fa, 'gp) machine) dm" where
  "memcpy_from dst xs n s = copy_in dst (local_src xs n) n s"

text \<open>
  The transfer of line 182, from the host cell states into the staging array
  \<^verbatim>\<open>cell_state_h\<close>, which was allocated for \<open>n\<close> elements; it yields the staging array.
\<close>

definition memcpy_stage :: "'a list \<Rightarrow> int \<Rightarrow> ('a list, ('cs, 'v, 'fa, 'gp) machine) dm" where
  "memcpy_stage xs n s =
     (if faulty s \<or> n < 0 then (Inl CopyFailed, logged False s)
      else (case local_src xs n of
              Some ys \<Rightarrow> (Inr ys, logged True s)
            | None \<Rightarrow> (Inl BadAccess, logged False s)))"

subsection \<open>The builder\<close>

text \<open>
  The assignment \<^verbatim>\<open>a[i].field = v\<close> to an element of a staging array.
\<close>

definition upd :: "nat \<Rightarrow> ('a \<Rightarrow> 'a) \<Rightarrow> 'a list \<Rightarrow> 'a list" where
  "upd i f xs = xs[i := f (xs ! i)]"

text \<open>
  The content of staging memory that \<^verbatim>\<open>malloc\<close> returned and nothing has written
  yet is indeterminate: its address-valued fields are \<open>Wild\<close>, its integers are fixed to
  zero here. The host-side \<^verbatim>\<open>malloc\<close> of the source is not checked and is taken to
  succeed.
\<close>

definition wild_connectivity :: MC_Facet_Adjacency_Cell where
  "wild_connectivity = \<lparr>num_points = 0, num_facets = 0, c_point = Wild, c_facet = Wild\<rparr>"

definition wild_geometry :: MC_Facet_Geometry_Cell where
  "wild_geometry = \<lparr>g_facet = Wild, g_size = 0\<rparr>"

definition wild_domain :: MC_Domain_d where
  "wild_domain =
     \<lparr>domainIndex_d = 0, global_domain_d = 0, cell_state_d = Wild, cell_stateSize = 0,
      mesh_d = \<lparr>domainGid_d = 0, nbrRank_d = Wild, nbrRankSize = 0, node_d = Wild,
                nodeSize = 0, cellConnectivity_d = Wild, cellConnectivitySize = 0,
                cellGeometry_d = Wild, cellGeometrySize = 0\<rparr>\<rparr>"

text \<open>Lines 195 to 203: the body of the loop over the cell states of one domain.\<close>

definition cell_state_body ::
  "int \<Rightarrow> 'cs MC_Cell_State list \<Rightarrow> nat \<Rightarrow> 'cs MC_Cell_State list \<Rightarrow>
   ('cs MC_Cell_State list, ('cs, 'v, 'fa, 'gp) machine) dm" where
  "cell_state_body numEnergyGroups cell_state_i j cell_state_h =
     safeCall (malloc_device numEnergyGroups) (\<lambda>p.
       let cell_state_h = upd j (\<lambda>c. c\<lparr>total := p\<rparr>) cell_state_h in
       safeCall (memcpy (total (cell_state_h ! j)) (total (cell_state_i ! j)) numEnergyGroups) (\<lambda>_.
         ret cell_state_h))"

text \<open>
  Lines 261 to 294: the body of the loop over the connectivity cells. The staging
  arrays \<^verbatim>\<open>cellConnectivity\<close> and \<^verbatim>\<open>cellGeometry\<close> of the source are
  \<open>cellConnectivity_h\<close> and \<open>cellGeometry_h\<close> here, and the host arrays a loop reads
  carry the suffix \<open>_i\<close>.
\<close>

definition connectivity_body ::
  "MC_Facet_Adjacency_Cell list \<Rightarrow> nat \<Rightarrow> MC_Facet_Adjacency_Cell list \<Rightarrow>
   (MC_Facet_Adjacency_Cell list, ('cs, 'v, 'fa, 'gp) machine) dm" where
  "connectivity_body cellConnectivity_i j cellConnectivity_h =
     (let cellConnectivity_h =
            upd j (\<lambda>c. c\<lparr>num_points := num_points (cellConnectivity_i ! j)\<rparr>) cellConnectivity_h;
          cellConnectivity_h =
            upd j (\<lambda>c. c\<lparr>num_facets := num_facets (cellConnectivity_i ! j)\<rparr>) cellConnectivity_h
      in safeCall (malloc_device (num_points (cellConnectivity_h ! j))) (\<lambda>p.
           let cellConnectivity_h = upd j (\<lambda>c. c\<lparr>c_point := p\<rparr>) cellConnectivity_h in
           safeCall (memcpy (c_point (cellConnectivity_h ! j)) (c_point (cellConnectivity_i ! j))
                       (num_points (cellConnectivity_h ! j))) (\<lambda>_.
             safeCall (malloc_device (num_facets (cellConnectivity_h ! j))) (\<lambda>q.
               let cellConnectivity_h = upd j (\<lambda>c. c\<lparr>c_facet := q\<rparr>) cellConnectivity_h in
               safeCall (memcpy (c_facet (cellConnectivity_h ! j)) (c_facet (cellConnectivity_i ! j))
                           (num_facets (cellConnectivity_h ! j))) (\<lambda>_.
                 ret cellConnectivity_h)))))"

text \<open>Lines 317 to 331: the body of the loop over the geometry cells.\<close>

definition geometry_body ::
  "MC_Facet_Geometry_Cell list \<Rightarrow> nat \<Rightarrow> MC_Facet_Geometry_Cell list \<Rightarrow>
   (MC_Facet_Geometry_Cell list, ('cs, 'v, 'fa, 'gp) machine) dm" where
  "geometry_body cellGeometry_i j cellGeometry_h =
     (let cellGeometry_h = upd j (\<lambda>g. g\<lparr>g_size := g_size (cellGeometry_i ! j)\<rparr>) cellGeometry_h
      in safeCall (malloc_device (g_size (cellGeometry_h ! j))) (\<lambda>p.
           let cellGeometry_h = upd j (\<lambda>g. g\<lparr>g_facet := p\<rparr>) cellGeometry_h in
           safeCall (memcpy (g_facet (cellGeometry_h ! j)) (g_facet (cellGeometry_i ! j))
                       (g_size (cellGeometry_h ! j))) (\<lambda>_.
             ret cellGeometry_h)))"

text \<open>
  One iteration of the loop over the domains works on the staging descriptor
  \<^verbatim>\<open>domain_h[i]\<close>, here \<open>D\<close>, and on the host domain \<^verbatim>\<open>domain[i]\<close>, here \<open>d\<close>. It is
  written in the five parts of the source. Lines 175 to 222: the scalars, the cell
  states and the mesh identifier.
\<close>

definition copy_cell_state ::
  "int \<Rightarrow> ('cs, 'v, 'bs) MC_Domain \<Rightarrow> MC_Domain_d \<Rightarrow> (MC_Domain_d, ('cs, 'v, 'fa, 'gp) machine) dm" where
  "copy_cell_state numEnergyGroups d D =
     (let D = D\<lparr>domainIndex_d := domainIndex d\<rparr>;
          D = D\<lparr>global_domain_d := global_domain d\<rparr>;
          D = D\<lparr>cell_stateSize := int (length (cell_state d))\<rparr>
      in safeCall (memcpy_stage (cell_state d) (int (length (cell_state d)))) (\<lambda>cell_state_h.
           safeCall (for_loop 0 (length (cell_state d))
                       (cell_state_body numEnergyGroups (cell_state d)) cell_state_h) (\<lambda>cell_state_h.
             safeCall (malloc_device (int (length (cell_state d)))) (\<lambda>p.
               let D = D\<lparr>cell_state_d := p\<rparr> in
               safeCall (memcpy_from (cell_state_d D) (map VCellState cell_state_h)
                           (int (length (cell_state d)))) (\<lambda>_.
                 ret (D\<lparr>mesh_d := (mesh_d D)\<lparr>domainGid_d := domainGid (mesh d)\<rparr>\<rparr>))))))"

text \<open>Lines 224 to 238: the neighbor ranks.\<close>

definition copy_nbrRank ::
  "('cs, 'v, 'bs) MC_Domain \<Rightarrow> MC_Domain_d \<Rightarrow> (MC_Domain_d, ('cs, 'v, 'fa, 'gp) machine) dm" where
  "copy_nbrRank d D =
     (let D = D\<lparr>mesh_d := (mesh_d D)\<lparr>nbrRankSize := int (length (nbrRank (mesh d)))\<rparr>\<rparr>
      in safeCall (malloc_device (int (length (nbrRank (mesh d))))) (\<lambda>p.
           let D = D\<lparr>mesh_d := (mesh_d D)\<lparr>nbrRank_d := p\<rparr>\<rparr> in
           safeCall (memcpy_from (nbrRank_d (mesh_d D)) (map VInt (nbrRank (mesh d)))
                       (int (length (nbrRank (mesh d))))) (\<lambda>_.
             ret D)))"

text \<open>Lines 240 to 254: the nodes.\<close>

definition copy_node ::
  "('cs, 'v, 'bs) MC_Domain \<Rightarrow> MC_Domain_d \<Rightarrow> (MC_Domain_d, ('cs, 'v, 'fa, 'gp) machine) dm" where
  "copy_node d D =
     (let D = D\<lparr>mesh_d := (mesh_d D)\<lparr>nodeSize := int (length (node (mesh d)))\<rparr>\<rparr>
      in safeCall (malloc_device (nodeSize (mesh_d D))) (\<lambda>p.
           let D = D\<lparr>mesh_d := (mesh_d D)\<lparr>node_d := p\<rparr>\<rparr> in
           safeCall (memcpy_from (node_d (mesh_d D)) (map VVector (node (mesh d)))
                       (nodeSize (mesh_d D))) (\<lambda>_.
             ret D)))"

text \<open>Lines 256 to 310: the connectivity cells.\<close>

definition copy_cellConnectivity ::
  "('cs, 'v, 'bs) MC_Domain \<Rightarrow> MC_Domain_d \<Rightarrow> (MC_Domain_d, ('cs, 'v, 'fa, 'gp) machine) dm" where
  "copy_cellConnectivity d D =
     (let cellConnectivitySize_l = int (length (cellConnectivity (mesh d)));
          D = D\<lparr>mesh_d := (mesh_d D)\<lparr>cellConnectivitySize := cellConnectivitySize_l\<rparr>\<rparr>;
          cellConnectivity_h = replicate (nat cellConnectivitySize_l) wild_connectivity
      in safeCall (for_loop 0 (nat cellConnectivitySize_l)
                     (connectivity_body (cellConnectivity (mesh d))) cellConnectivity_h) (\<lambda>cellConnectivity_h.
           safeCall (malloc_device cellConnectivitySize_l) (\<lambda>p.
             let D = D\<lparr>mesh_d := (mesh_d D)\<lparr>cellConnectivity_d := p\<rparr>\<rparr> in
             safeCall (memcpy_from (cellConnectivity_d (mesh_d D)) (map VConn cellConnectivity_h)
                         cellConnectivitySize_l) (\<lambda>_.
               ret D))))"

text \<open>Lines 312 to 347: the geometry cells.\<close>

definition copy_cellGeometry ::
  "('cs, 'v, 'bs) MC_Domain \<Rightarrow> MC_Domain_d \<Rightarrow> (MC_Domain_d, ('cs, 'v, 'fa, 'gp) machine) dm" where
  "copy_cellGeometry d D =
     (let cellGeometrySize_l = int (length (cellGeometry (mesh d)));
          D = D\<lparr>mesh_d := (mesh_d D)\<lparr>cellGeometrySize := cellGeometrySize_l\<rparr>\<rparr>;
          cellGeometry_h = replicate (nat cellGeometrySize_l) wild_geometry
      in safeCall (for_loop 0 (nat cellGeometrySize_l)
                     (geometry_body (cellGeometry (mesh d))) cellGeometry_h) (\<lambda>cellGeometry_h.
           safeCall (malloc_device cellGeometrySize_l) (\<lambda>p.
             let D = D\<lparr>mesh_d := (mesh_d D)\<lparr>cellGeometry_d := p\<rparr>\<rparr> in
             safeCall (memcpy_from (cellGeometry_d (mesh_d D)) (map VGeom cellGeometry_h)
                         cellGeometrySize_l) (\<lambda>_.
               ret D))))"

text \<open>Lines 173 to 350: the body of the loop over the domains.\<close>

definition domain_body ::
  "int \<Rightarrow> ('cs, 'v, 'bs) MC_Domain list \<Rightarrow> nat \<Rightarrow> MC_Domain_d list \<Rightarrow>
   (MC_Domain_d list, ('cs, 'v, 'fa, 'gp) machine) dm" where
  "domain_body numEnergyGroups domain i domain_h =
     safeCall (copy_cell_state numEnergyGroups (domain ! i) (domain_h ! i)) (\<lambda>D.
       safeCall (copy_nbrRank (domain ! i) D) (\<lambda>D.
         safeCall (copy_node (domain ! i) D) (\<lambda>D.
           safeCall (copy_cellConnectivity (domain ! i) D) (\<lambda>D.
             safeCall (copy_cellGeometry (domain ! i) D) (\<lambda>D.
               ret (domain_h[i := D]))))))"

text \<open>
  \<^verbatim>\<open>copyDomainDevice(numEnergyGroups, domain, domain_d, domainSize)\<close>. The parameter
  \<open>domain\<close> is passed by value, \<open>domain_d\<close> is the address the caller passes, and the
  result of a build that completes is the value left in \<^verbatim>\<open>domainSize\<close>. A build that
  fails ends with \<open>Inl\<close> and the machine at that moment.
\<close>

definition copyDomainDevice ::
  "int \<Rightarrow> ('cs, 'v, 'bs) MC_Domain list \<Rightarrow> ptr \<Rightarrow> (int, ('cs, 'v, 'fa, 'gp) machine) dm" where
  "copyDomainDevice numEnergyGroups domain domain_d =
     (let domainSize = int (length domain);
          domain_h = replicate (nat domainSize) wild_domain
      in safeCall (for_loop 0 (nat domainSize) (domain_body numEnergyGroups domain) domain_h) (\<lambda>domain_h.
           safeCall (memcpy_from domain_d (map VDomain domain_h) domainSize) (\<lambda>_.
             ret domainSize)))"

subsection \<open>Reading structures back from memory\<close>

text \<open>
  The three memories a structure can be read from: host memory alone, device memory
  alone, and the device memory at the addresses from \<open>b\<close> on.
\<close>

definition host_heap :: "('cs, 'v, 'fa, 'gp) machine \<Rightarrow> ('cs, 'v, 'fa, 'gp) heap" where
  "host_heap s p = (case p of HostP a \<Rightarrow> hmem s a | _ \<Rightarrow> None)"

definition dev_heap :: "('cs, 'v, 'fa, 'gp) machine \<Rightarrow> ('cs, 'v, 'fa, 'gp) heap" where
  "dev_heap s p = (case p of DevP a \<Rightarrow> dmem s a | _ \<Rightarrow> None)"

definition device_from :: "nat \<Rightarrow> ('cs, 'v, 'fa, 'gp) machine \<Rightarrow> ('cs, 'v, 'fa, 'gp) heap" where
  "device_from b s p = (case p of DevP a \<Rightarrow> if b \<le> a then dmem s a else None | _ \<Rightarrow> None)"

fun un_double :: "('cs, 'v, 'fa, 'gp) val \<Rightarrow> double option" where
  "un_double (VDouble x) = Some x"
| "un_double _ = None"

fun un_int :: "('cs, 'v, 'fa, 'gp) val \<Rightarrow> int option" where
  "un_int (VInt x) = Some x"
| "un_int _ = None"

fun un_vector :: "('cs, 'v, 'fa, 'gp) val \<Rightarrow> 'v option" where
  "un_vector (VVector x) = Some x"
| "un_vector _ = None"

fun un_facet :: "('cs, 'v, 'fa, 'gp) val \<Rightarrow> 'fa option" where
  "un_facet (VFacet x) = Some x"
| "un_facet _ = None"

fun un_plane :: "('cs, 'v, 'fa, 'gp) val \<Rightarrow> 'gp option" where
  "un_plane (VPlane x) = Some x"
| "un_plane _ = None"

fun un_cell_state :: "('cs, 'v, 'fa, 'gp) val \<Rightarrow> 'cs MC_Cell_State option" where
  "un_cell_state (VCellState x) = Some x"
| "un_cell_state _ = None"

fun un_conn :: "('cs, 'v, 'fa, 'gp) val \<Rightarrow> MC_Facet_Adjacency_Cell option" where
  "un_conn (VConn x) = Some x"
| "un_conn _ = None"

fun un_geom :: "('cs, 'v, 'fa, 'gp) val \<Rightarrow> MC_Facet_Geometry_Cell option" where
  "un_geom (VGeom x) = Some x"
| "un_geom _ = None"

fun un_domain :: "('cs, 'v, 'fa, 'gp) val \<Rightarrow> MC_Domain_d option" where
  "un_domain (VDomain x) = Some x"
| "un_domain _ = None"

text \<open>An array of \<open>n\<close> elements of one kind at an address.\<close>

definition read_as ::
  "(('cs, 'v, 'fa, 'gp) val \<Rightarrow> 'a option) \<Rightarrow> ('cs, 'v, 'fa, 'gp) heap \<Rightarrow> ptr \<Rightarrow> int \<Rightarrow> 'a list option" where
  "read_as un h p n = (case read_mem h p n of None \<Rightarrow> None | Some vs \<Rightarrow> those (map un vs))"

definition view_all :: "('a \<Rightarrow> 'b option) \<Rightarrow> 'a list \<Rightarrow> 'b list option" where
  "view_all f xs = those (map f xs)"

text \<open>
  What a cell state, a connectivity cell and a geometry cell stand for, with their
  arrays read through their addresses: the cross sections of the energy groups and the
  other members; the two counts, the point indices and the facet adjacencies; the count
  and the planes. The classes are the same on the host and on the device, and so are
  these functions.
\<close>

definition view_cell_state ::
  "('cs, 'v, 'fa, 'gp) heap \<Rightarrow> int \<Rightarrow> 'cs MC_Cell_State \<Rightarrow> (double list \<times> 'cs) option" where
  "view_cell_state h numEnergyGroups c =
     (case read_as un_double h (total c) numEnergyGroups of
        None \<Rightarrow> None
      | Some xs \<Rightarrow> Some (xs, cs_other c))"

definition view_connectivity ::
  "('cs, 'v, 'fa, 'gp) heap \<Rightarrow> MC_Facet_Adjacency_Cell \<Rightarrow> (int \<times> int \<times> int list \<times> 'fa list) option" where
  "view_connectivity h c =
     (case read_as un_int h (c_point c) (num_points c) of
        None \<Rightarrow> None
      | Some ps \<Rightarrow>
          (case read_as un_facet h (c_facet c) (num_facets c) of
             None \<Rightarrow> None
           | Some fs \<Rightarrow> Some (num_points c, num_facets c, ps, fs)))"

definition view_geometry ::
  "('cs, 'v, 'fa, 'gp) heap \<Rightarrow> MC_Facet_Geometry_Cell \<Rightarrow> (int \<times> 'gp list) option" where
  "view_geometry h g =
     (case read_as un_plane h (g_facet g) (g_size g) of
        None \<Rightarrow> None
      | Some ps \<Rightarrow> Some (g_size g, ps))"

text \<open>What a domain stands for: its scalars and the content of every array it owns.\<close>

record ('cs, 'v, 'fa, 'gp) domain_view =
  v_domainIndex :: int
  v_global_domain :: int
  v_cell_state :: "(double list \<times> 'cs) list"
  v_domainGid :: int
  v_nbrRank :: "int list"
  v_node :: "'v list"
  v_cellConnectivity :: "(int \<times> int \<times> int list \<times> 'fa list) list"
  v_cellGeometry :: "(int \<times> 'gp list) list"

text \<open>A host domain, its per-cell arrays read from \<open>h\<close>.\<close>

definition view_domain ::
  "('cs, 'v, 'fa, 'gp) heap \<Rightarrow> int \<Rightarrow> ('cs, 'v, 'bs) MC_Domain \<Rightarrow> ('cs, 'v, 'fa, 'gp) domain_view option" where
  "view_domain h numEnergyGroups d =
     (case view_all (view_cell_state h numEnergyGroups) (cell_state d) of
        None \<Rightarrow> None
      | Some cs \<Rightarrow>
     (case view_all (view_connectivity h) (cellConnectivity (mesh d)) of
        None \<Rightarrow> None
      | Some cc \<Rightarrow>
     (case view_all (view_geometry h) (cellGeometry (mesh d)) of
        None \<Rightarrow> None
      | Some cg \<Rightarrow>
          Some \<lparr>v_domainIndex = domainIndex d, v_global_domain = global_domain d,
                v_cell_state = cs, v_domainGid = domainGid (mesh d),
                v_nbrRank = nbrRank (mesh d), v_node = node (mesh d),
                v_cellConnectivity = cc, v_cellGeometry = cg\<rparr>)))"

definition view_host ::
  "('cs, 'v, 'fa, 'gp) heap \<Rightarrow> int \<Rightarrow> ('cs, 'v, 'bs) MC_Domain list \<Rightarrow>
   ('cs, 'v, 'fa, 'gp) domain_view list option" where
  "view_host h numEnergyGroups domain = view_all (view_domain h numEnergyGroups) domain"

text \<open>
  A device descriptor, every array read through its address and with its recorded
  count.
\<close>

definition view_domain_d ::
  "('cs, 'v, 'fa, 'gp) heap \<Rightarrow> int \<Rightarrow> MC_Domain_d \<Rightarrow> ('cs, 'v, 'fa, 'gp) domain_view option" where
  "view_domain_d h numEnergyGroups D =
     (case read_as un_cell_state h (cell_state_d D) (cell_stateSize D) of
        None \<Rightarrow> None
      | Some cells \<Rightarrow>
     (case view_all (view_cell_state h numEnergyGroups) cells of
        None \<Rightarrow> None
      | Some cs \<Rightarrow>
     (case read_as un_int h (nbrRank_d (mesh_d D)) (nbrRankSize (mesh_d D)) of
        None \<Rightarrow> None
      | Some nr \<Rightarrow>
     (case read_as un_vector h (node_d (mesh_d D)) (nodeSize (mesh_d D)) of
        None \<Rightarrow> None
      | Some nd \<Rightarrow>
     (case read_as un_conn h (cellConnectivity_d (mesh_d D)) (cellConnectivitySize (mesh_d D)) of
        None \<Rightarrow> None
      | Some ccs \<Rightarrow>
     (case view_all (view_connectivity h) ccs of
        None \<Rightarrow> None
      | Some cc \<Rightarrow>
     (case read_as un_geom h (cellGeometry_d (mesh_d D)) (cellGeometrySize (mesh_d D)) of
        None \<Rightarrow> None
      | Some cgs \<Rightarrow>
     (case view_all (view_geometry h) cgs of
        None \<Rightarrow> None
      | Some cg \<Rightarrow>
          Some \<lparr>v_domainIndex = domainIndex_d D, v_global_domain = global_domain_d D,
                v_cell_state = cs, v_domainGid = domainGid_d (mesh_d D),
                v_nbrRank = nr, v_node = nd,
                v_cellConnectivity = cc, v_cellGeometry = cg\<rparr>))))))))"

text \<open>The mirror: the descriptor array of \<open>n\<close> elements at \<open>domain_d\<close>.\<close>

definition view_mirror ::
  "('cs, 'v, 'fa, 'gp) heap \<Rightarrow> int \<Rightarrow> ptr \<Rightarrow> int \<Rightarrow> ('cs, 'v, 'fa, 'gp) domain_view list option" where
  "view_mirror h numEnergyGroups domain_d n =
     (case read_as un_domain h domain_d n of
        None \<Rightarrow> None
      | Some Ds \<Rightarrow> view_all (view_domain_d h numEnergyGroups) Ds)"

subsection \<open>Conditions on the machine\<close>

text \<open>
  The allocator hands out fresh addresses: nothing is allocated from \<open>next_free\<close> on.
\<close>

definition good :: "('cs, 'v, 'fa, 'gp) machine \<Rightarrow> bool" where
  "good s = (\<forall>a. next_free s \<le> a \<longrightarrow> dmem s a = None)"

text \<open>
  The address the caller passes names a device allocation that holds at least \<open>n\<close>
  elements (nothing is asked of it for \<open>n = 0\<close>).
\<close>

definition valid_dest :: "('cs, 'v, 'fa, 'gp) machine \<Rightarrow> ptr \<Rightarrow> nat \<Rightarrow> bool" where
  "valid_dest s domain_d n =
     (n = 0 \<or> (case domain_d of
                  DevP a \<Rightarrow> (case dmem s a of None \<Rightarrow> False | Some buf \<Rightarrow> n \<le> length buf)
                | _ \<Rightarrow> False))"

definition is_dev :: "ptr \<Rightarrow> bool" where
  "is_dev p = (case p of DevP a \<Rightarrow> True | _ \<Rightarrow> False)"

text \<open>
  The host model holds no device address: an address the builder reads \<open>n > 0\<close>
  elements from is not one of the target space.
\<close>

definition src_ok :: "ptr \<Rightarrow> int \<Rightarrow> bool" where
  "src_ok q n = (0 < n \<longrightarrow> \<not> is_dev q)"

definition host_side :: "int \<Rightarrow> ('cs, 'v, 'bs) MC_Domain \<Rightarrow> bool" where
  "host_side numEnergyGroups d =
     ((\<forall>c \<in> set (cell_state d). src_ok (total c) numEnergyGroups)
      \<and> (\<forall>c \<in> set (cellConnectivity (mesh d)).
            src_ok (c_point c) (num_points c) \<and> src_ok (c_facet c) (num_facets c))
      \<and> (\<forall>g \<in> set (cellGeometry (mesh d)). src_ok (g_facet g) (g_size g)))"

text \<open>Host memory holds written leaf data only: no address, nothing unwritten.\<close>

fun leaf :: "('cs, 'v, 'fa, 'gp) val \<Rightarrow> bool" where
  "leaf (VDouble x) = True"
| "leaf (VInt x) = True"
| "leaf (VVector x) = True"
| "leaf (VFacet x) = True"
| "leaf (VPlane x) = True"
| "leaf _ = False"

definition host_leafy :: "('cs, 'v, 'fa, 'gp) machine \<Rightarrow> bool" where
  "host_leafy s = (\<forall>a buf. hmem s a = Some buf \<longrightarrow> list_all leaf buf)"

text \<open>
  How one machine relates to an earlier one: \<open>ext\<close>, the allocator has moved on, host
  memory and the device allocations that existed are as they were; \<open>allocated\<close>, the
  one change is a new device allocation at \<open>p\<close> holding \<open>buf\<close> (none for the null
  address).
\<close>

definition ext :: "('cs, 'v, 'fa, 'gp) machine \<Rightarrow> ('cs, 'v, 'fa, 'gp) machine \<Rightarrow> bool" where
  "ext s s' =
     (next_free s \<le> next_free s' \<and> hmem s' = hmem s
      \<and> (\<forall>a. a < next_free s \<longrightarrow> dmem s' a = dmem s a))"

definition allocated ::
  "('cs, 'v, 'fa, 'gp) machine \<Rightarrow> ptr \<Rightarrow> ('cs, 'v, 'fa, 'gp) val list \<Rightarrow>
   ('cs, 'v, 'fa, 'gp) machine \<Rightarrow> bool" where
  "allocated s p buf s' =
     (hmem s' = hmem s
      \<and> (case p of
            Null \<Rightarrow> buf = [] \<and> dmem s' = dmem s \<and> next_free s' = next_free s
          | DevP a \<Rightarrow> a = next_free s \<and> dmem s' = (dmem s)(a \<mapsto> buf) \<and> next_free s' = Suc a
          | _ \<Rightarrow> False))"

text \<open>
  \<open>holds h p n vs\<close>: \<open>p\<close> is the result of a device allocation of \<open>n\<close> elements, and
  the allocation holds exactly \<open>vs\<close>. \<open>complete h p n\<close>: \<open>p\<close> is the result of a device
  allocation of \<open>n\<close> elements, all of them written. The null address is the result of an
  allocation of no element only.
\<close>

definition holds ::
  "('cs, 'v, 'fa, 'gp) heap \<Rightarrow> ptr \<Rightarrow> int \<Rightarrow> ('cs, 'v, 'fa, 'gp) val list \<Rightarrow> bool" where
  "holds h p n vs =
     (0 \<le> n \<and> length vs = nat n
      \<and> (case p of Null \<Rightarrow> n = 0 | DevP a \<Rightarrow> h p = Some vs | _ \<Rightarrow> False))"

definition complete :: "('cs, 'v, 'fa, 'gp) heap \<Rightarrow> ptr \<Rightarrow> int \<Rightarrow> bool" where
  "complete h p n =
     (0 \<le> n
      \<and> (case p of
            Null \<Rightarrow> n = 0
          | DevP a \<Rightarrow> (case h p of
                         None \<Rightarrow> False
                       | Some buf \<Rightarrow> length buf = nat n \<and> VUninit \<notin> set buf)
          | _ \<Rightarrow> False))"

text \<open>
  Every address-valued field of an element in memory is the address of a completed
  device allocation.
\<close>

definition val_ok :: "('cs, 'v, 'fa, 'gp) heap \<Rightarrow> int \<Rightarrow> ('cs, 'v, 'fa, 'gp) val \<Rightarrow> bool" where
  "val_ok h numEnergyGroups v =
     (case v of
        VCellState c \<Rightarrow> complete h (total c) numEnergyGroups
      | VConn c \<Rightarrow> complete h (c_point c) (num_points c) \<and> complete h (c_facet c) (num_facets c)
      | VGeom g \<Rightarrow> complete h (g_facet g) (g_size g)
      | VDomain D \<Rightarrow>
          complete h (cell_state_d D) (cell_stateSize D)
          \<and> complete h (nbrRank_d (mesh_d D)) (nbrRankSize (mesh_d D))
          \<and> complete h (node_d (mesh_d D)) (nodeSize (mesh_d D))
          \<and> complete h (cellConnectivity_d (mesh_d D)) (cellConnectivitySize (mesh_d D))
          \<and> complete h (cellGeometry_d (mesh_d D)) (cellGeometrySize (mesh_d D))
      | _ \<Rightarrow> True)"

text \<open>
  The state of target-space memory the bottom-up order maintains: no element of any
  device allocation holds a host address, an indeterminate address, or the address of
  an allocation that is not fully written.
\<close>

definition closed :: "int \<Rightarrow> ('cs, 'v, 'fa, 'gp) machine \<Rightarrow> bool" where
  "closed numEnergyGroups s =
     (\<forall>a buf. dmem s a = Some buf \<longrightarrow> (\<forall>v \<in> set buf. val_ok (dev_heap s) numEnergyGroups v))"

text \<open>
  What every step of the build before the last transfer keeps: \<open>same_mem\<close>, memory and
  allocator are untouched; \<open>stays\<close>, the machine extends the earlier one, the
  allocator stays sound and, where the host model holds no device address (\<open>srcs\<close>),
  target-space memory stays closed.
\<close>

definition same_mem :: "('cs, 'v, 'fa, 'gp) machine \<Rightarrow> ('cs, 'v, 'fa, 'gp) machine \<Rightarrow> bool" where
  "same_mem s s' = (hmem s' = hmem s \<and> dmem s' = dmem s \<and> next_free s' = next_free s)"

definition stays ::
  "int \<Rightarrow> bool \<Rightarrow> ('cs, 'v, 'fa, 'gp) machine \<Rightarrow> ('cs, 'v, 'fa, 'gp) machine \<Rightarrow> bool" where
  "stays numEnergyGroups srcs s s' =
     (ext s s' \<and> (good s \<longrightarrow> good s')
      \<and> (srcs \<and> good s \<and> host_leafy s \<and> closed numEnergyGroups s
           \<longrightarrow> closed numEnergyGroups s'))"

text \<open>
  A staged cell, and a staged descriptor, mirror a host one: the scalars agree, every
  recorded count is the host count, and every address is the result of an allocation
  that holds what the host array holds. \<open>h\<close> is the memory the mirror is in, \<open>hh\<close> the
  one the host arrays are in.
\<close>

definition mirrors_cell_state ::
  "('cs, 'v, 'fa, 'gp) heap \<Rightarrow> ('cs, 'v, 'fa, 'gp) heap \<Rightarrow> int \<Rightarrow>
   'cs MC_Cell_State \<Rightarrow> 'cs MC_Cell_State \<Rightarrow> bool" where
  "mirrors_cell_state h hh numEnergyGroups c c0 =
     (cs_other c = cs_other c0
      \<and> (\<exists>vs. holds h (total c) numEnergyGroups vs
               \<and> read_mem hh (total c0) numEnergyGroups = Some vs))"

definition mirrors_connectivity ::
  "('cs, 'v, 'fa, 'gp) heap \<Rightarrow> ('cs, 'v, 'fa, 'gp) heap \<Rightarrow>
   MC_Facet_Adjacency_Cell \<Rightarrow> MC_Facet_Adjacency_Cell \<Rightarrow> bool" where
  "mirrors_connectivity h hh c c0 =
     (num_points c = num_points c0 \<and> num_facets c = num_facets c0
      \<and> (\<exists>vs. holds h (c_point c) (num_points c0) vs
               \<and> read_mem hh (c_point c0) (num_points c0) = Some vs)
      \<and> (\<exists>vs. holds h (c_facet c) (num_facets c0) vs
               \<and> read_mem hh (c_facet c0) (num_facets c0) = Some vs))"

definition mirrors_geometry ::
  "('cs, 'v, 'fa, 'gp) heap \<Rightarrow> ('cs, 'v, 'fa, 'gp) heap \<Rightarrow>
   MC_Facet_Geometry_Cell \<Rightarrow> MC_Facet_Geometry_Cell \<Rightarrow> bool" where
  "mirrors_geometry h hh g g0 =
     (g_size g = g_size g0
      \<and> (\<exists>vs. holds h (g_facet g) (g_size g0) vs
               \<and> read_mem hh (g_facet g0) (g_size g0) = Some vs))"

definition mirrors_domain ::
  "('cs, 'v, 'fa, 'gp) heap \<Rightarrow> ('cs, 'v, 'fa, 'gp) heap \<Rightarrow> int \<Rightarrow>
   MC_Domain_d \<Rightarrow> ('cs, 'v, 'bs) MC_Domain \<Rightarrow> bool" where
  "mirrors_domain h hh numEnergyGroups D d =
     (domainIndex_d D = domainIndex d \<and> global_domain_d D = global_domain d
      \<and> domainGid_d (mesh_d D) = domainGid (mesh d)
      \<and> cell_stateSize D = int (length (cell_state d))
      \<and> nbrRankSize (mesh_d D) = int (length (nbrRank (mesh d)))
      \<and> nodeSize (mesh_d D) = int (length (node (mesh d)))
      \<and> cellConnectivitySize (mesh_d D) = int (length (cellConnectivity (mesh d)))
      \<and> cellGeometrySize (mesh_d D) = int (length (cellGeometry (mesh d)))
      \<and> (\<exists>cs. holds h (cell_state_d D) (cell_stateSize D) (map VCellState cs)
               \<and> list_all2 (mirrors_cell_state h hh numEnergyGroups) cs (cell_state d))
      \<and> holds h (nbrRank_d (mesh_d D)) (nbrRankSize (mesh_d D)) (map VInt (nbrRank (mesh d)))
      \<and> holds h (node_d (mesh_d D)) (nodeSize (mesh_d D)) (map VVector (node (mesh d)))
      \<and> (\<exists>cc. holds h (cellConnectivity_d (mesh_d D)) (cellConnectivitySize (mesh_d D)) (map VConn cc)
               \<and> list_all2 (mirrors_connectivity h hh) cc (cellConnectivity (mesh d)))
      \<and> (\<exists>cg. holds h (cellGeometry_d (mesh_d D)) (cellGeometrySize (mesh_d D)) (map VGeom cg)
               \<and> list_all2 (mirrors_geometry h hh) cg (cellGeometry (mesh d))))"

subsection \<open>A small host model\<close>

text \<open>
  One domain with one cell, two energy groups, two point indices, one facet and one
  plane, on a machine whose caller has allocated the descriptor array at device
  address 0. The parameter types are all \<open>nat\<close>.
\<close>

definition example_cell :: "nat MC_Cell_State" where
  "example_cell = \<lparr>total = HostP 0, cs_other = 7\<rparr>"

definition example_connectivity :: MC_Facet_Adjacency_Cell where
  "example_connectivity = \<lparr>num_points = 2, num_facets = 1, c_point = HostP 1, c_facet = HostP 2\<rparr>"

definition example_geometry :: MC_Facet_Geometry_Cell where
  "example_geometry = \<lparr>g_facet = HostP 3, g_size = 1\<rparr>"

definition example_domain :: "(nat, nat, nat) MC_Domain" where
  "example_domain =
     \<lparr>domainIndex = 5, global_domain = 6, cell_state = [example_cell],
      cachedCrossSectionStorage = 0,
      mesh = \<lparr>domainGid = 9, nbrDomainGid = [1], nbrRank = [4, 3], node = [11, 12, 13],
               cellConnectivity = [example_connectivity], cellGeometry = [example_geometry],
               connectivityFacetStorage = 0, connectivityPointStorage = 0,
               geomFacetStorage = 0\<rparr>\<rparr>"

definition example_hmem :: "nat \<Rightarrow> (nat, nat, nat, nat) val list option" where
  "example_hmem a =
     (if a = 0 then Some [VDouble 1, VDouble 2]
      else if a = 1 then Some [VInt 3, VInt 4]
      else if a = 2 then Some [VFacet 8]
      else if a = 3 then Some [VPlane 9]
      else None)"

definition example_machine :: "(nat, nat, nat, nat) machine" where
  "example_machine =
     \<lparr>hmem = example_hmem,
      dmem = (\<lambda>a. if a = 0 then Some [VUninit] else None),
      next_free = 1, null_on_empty = True, fails = (\<lambda>k. False), log = []\<rparr>"

definition example_view :: "(nat, nat, nat, nat) domain_view" where
  "example_view =
     \<lparr>v_domainIndex = 5, v_global_domain = 6, v_cell_state = [([1, 2], 7)],
      v_domainGid = 9, v_nbrRank = [4, 3], v_node = [11, 12, 13],
      v_cellConnectivity = [(2, 1, [3, 4], [8])], v_cellGeometry = [(1, [9])]\<rparr>"

subsection \<open>Notions the claims are stated with\<close>

definition is_host :: "ptr \<Rightarrow> bool" where
  "is_host p = (case p of HostP a \<Rightarrow> True | _ \<Rightarrow> False)"

text \<open>
  Two host domains agree on everything but the neighbor-domain identifiers and the four
  bulk-storage members.
\<close>

definition same_visible :: "('cs, 'v, 'bs) MC_Domain \<Rightarrow> ('cs, 'v, 'bs) MC_Domain \<Rightarrow> bool" where
  "same_visible d d' =
     (domainIndex d = domainIndex d' \<and> global_domain d = global_domain d'
      \<and> cell_state d = cell_state d'
      \<and> domainGid (mesh d) = domainGid (mesh d')
      \<and> nbrRank (mesh d) = nbrRank (mesh d')
      \<and> node (mesh d) = node (mesh d')
      \<and> cellConnectivity (mesh d) = cellConnectivity (mesh d')
      \<and> cellGeometry (mesh d) = cellGeometry (mesh d'))"

text \<open>
  \<open>fresh_for s p\<close>: the allocator of \<open>s\<close> has not handed out \<open>p\<close> yet, so an
  allocation found at \<open>p\<close> after a build that started in \<open>s\<close> was made by that build.
\<close>

definition fresh_for :: "('cs, 'v, 'fa, 'gp) machine \<Rightarrow> ptr \<Rightarrow> bool" where
  "fresh_for s p = (case p of DevP a \<Rightarrow> next_free s \<le> a | _ \<Rightarrow> False)"

text \<open>
  The handle, address and count, that the caller holds after a build that completed.
\<close>

definition mirror_handle :: "ptr \<Rightarrow> error + int \<Rightarrow> (ptr \<times> int) option" where
  "mirror_handle domain_d r = (case r of Inl e \<Rightarrow> None | Inr n \<Rightarrow> Some (domain_d, n))"

text \<open>
  An address paired with a count is a usable pair: not null where the count is positive.
\<close>

definition address_ok :: "ptr \<Rightarrow> int \<Rightarrow> bool" where
  "address_ok p n = (0 < n \<longrightarrow> p \<noteq> Null)"

text \<open>
  The counts a descriptor records, and those of the cells read through it, are the
  counts of the host domain, each paired with a usable address.
\<close>

definition counts_recorded ::
  "('cs, 'v, 'fa, 'gp) heap \<Rightarrow> MC_Domain_d \<Rightarrow> ('cs, 'v, 'bs) MC_Domain \<Rightarrow> bool" where
  "counts_recorded h D d =
     (cell_stateSize D = int (length (cell_state d))
      \<and> address_ok (cell_state_d D) (cell_stateSize D)
      \<and> nbrRankSize (mesh_d D) = int (length (nbrRank (mesh d)))
      \<and> address_ok (nbrRank_d (mesh_d D)) (nbrRankSize (mesh_d D))
      \<and> nodeSize (mesh_d D) = int (length (node (mesh d)))
      \<and> address_ok (node_d (mesh_d D)) (nodeSize (mesh_d D))
      \<and> cellConnectivitySize (mesh_d D) = int (length (cellConnectivity (mesh d)))
      \<and> address_ok (cellConnectivity_d (mesh_d D)) (cellConnectivitySize (mesh_d D))
      \<and> cellGeometrySize (mesh_d D) = int (length (cellGeometry (mesh d)))
      \<and> address_ok (cellGeometry_d (mesh_d D)) (cellGeometrySize (mesh_d D))
      \<and> (case read_as un_conn h (cellConnectivity_d (mesh_d D)) (cellConnectivitySize (mesh_d D)) of
            None \<Rightarrow> False
          | Some cc \<Rightarrow>
              list_all2 (\<lambda>c c0. num_points c = num_points c0 \<and> address_ok (c_point c) (num_points c)
                                \<and> num_facets c = num_facets c0 \<and> address_ok (c_facet c) (num_facets c))
                cc (cellConnectivity (mesh d)))
      \<and> (case read_as un_geom h (cellGeometry_d (mesh_d D)) (cellGeometrySize (mesh_d D)) of
            None \<Rightarrow> False
          | Some cg \<Rightarrow>
              list_all2 (\<lambda>g g0. g_size g = g_size g0 \<and> address_ok (g_facet g) (g_size g))
                cg (cellGeometry (mesh d))))"

text \<open>
  A build is orderly: every call it issues to the runtime is logged, all of them but
  possibly the last succeeded, a failed call is the last one and makes the build fail,
  and a call the runtime was set to fail has failed.
\<close>

definition orderly :: "('a, ('cs, 'v, 'fa, 'gp) machine) dm \<Rightarrow> bool" where
  "orderly m =
     (\<forall>s. case m s of
             (r, s') \<Rightarrow>
               fails s' = fails s
               \<and> (\<exists>k. log s' = log s @ replicate k True @ (case r of Inl e \<Rightarrow> [False] | Inr x \<Rightarrow> []))
               \<and> (\<forall>i. length (log s) \<le> i \<and> i < length (log s') \<and> fails s i \<longrightarrow> \<not> log s' ! i))"

text \<open>
  The conditions under which a build completes: the runtime fails no call, and no count
  of the host model is negative (\<open>numEnergyGroups\<close> matters where there is a cell).
\<close>

definition no_faults :: "('cs, 'v, 'fa, 'gp) machine \<Rightarrow> bool" where
  "no_faults s = (\<forall>k. \<not> fails s k)"

definition counts_nonneg :: "int \<Rightarrow> ('cs, 'v, 'bs) MC_Domain \<Rightarrow> bool" where
  "counts_nonneg numEnergyGroups d =
     ((cell_state d \<noteq> [] \<longrightarrow> 0 \<le> numEnergyGroups)
      \<and> (\<forall>c \<in> set (cellConnectivity (mesh d)). 0 \<le> num_points c \<and> 0 \<le> num_facets c)
      \<and> (\<forall>g \<in> set (cellGeometry (mesh d)). 0 \<le> g_size g))"

text \<open>
  A host domain without cells, and a descriptor that records no cell in its cell-state,
  cell-connectivity and cell-geometry arrays.
\<close>

definition no_cells :: "('cs, 'v, 'bs) MC_Domain \<Rightarrow> bool" where
  "no_cells d =
     (cell_state d = [] \<and> cellConnectivity (mesh d) = [] \<and> cellGeometry (mesh d) = [])"

definition records_no_cells :: "MC_Domain_d \<Rightarrow> bool" where
  "records_no_cells D =
     (cell_stateSize D = 0 \<and> cellConnectivitySize (mesh_d D) = 0
      \<and> cellGeometrySize (mesh_d D) = 0)"

subsection \<open>More example inputs\<close>

text \<open>
  The example domain with other neighbor-domain identifiers and bulk storage; a domain
  with no cell and what it stands for; a machine whose runtime fails its fifth call; a
  machine with another allocator state and the caller's array at device address 3.
\<close>

definition example_domain_other :: "(nat, nat, nat) MC_Domain" where
  "example_domain_other =
     example_domain\<lparr>cachedCrossSectionStorage := 1,
                    mesh := (mesh example_domain)\<lparr>nbrDomainGid := [2, 3],
                              connectivityFacetStorage := 4, connectivityPointStorage := 5,
                              geomFacetStorage := 6\<rparr>\<rparr>"

definition bare_domain :: "(nat, nat, nat) MC_Domain" where
  "bare_domain =
     example_domain\<lparr>cell_state := [],
                    mesh := (mesh example_domain)\<lparr>cellConnectivity := [], cellGeometry := []\<rparr>\<rparr>"

definition bare_view :: "(nat, nat, nat, nat) domain_view" where
  "bare_view =
     example_view\<lparr>v_cell_state := [], v_cellConnectivity := [], v_cellGeometry := []\<rparr>"

definition failing_machine :: "(nat, nat, nat, nat) machine" where
  "failing_machine = example_machine\<lparr>fails := (\<lambda>k. k = 4)\<rparr>"

definition other_machine :: "(nat, nat, nat, nat) machine" where
  "other_machine =
     example_machine\<lparr>dmem := (\<lambda>a. if a = 3 then Some [VUninit, VUninit] else None),
                     next_free := 5, null_on_empty := False\<rparr>"

section \<open>Properties of the harness\<close>

lemma count_failed_same: "a = b \<Longrightarrow> count_failed i N a b failed = failed"
proof (induction i N a b failed rule: count_failed.induct)
  case (1 i N a b failed)
  show ?case
  proof (cases "i < N")
    case True
    with 1 show ?thesis by (subst count_failed.simps) simp
  next
    case False
    then show ?thesis by (subst count_failed.simps) simp
  qed
qed

text \<open>
  Claim C9. Both host-side result accessors of \<^verbatim>\<open>test\<close> are built over
  \<open>dpct_results_buffer\<close>, so the comparison loop compares the optimised routine's results
  with themselves: for every size \<open>N\<close> (a non-negative count), every element type and
  every routine \<open>bfe_safe\<close>, \<^verbatim>\<open>test\<close> reports zero failures and returns true, whether or
  not \<open>bfe_safe\<close> agrees with \<open>bfe_slow\<close>.
\<close>

theorem test_always_passes:
  "0 \<le> N \<Longrightarrow> test bfe_safe is_unsigned rnd N = Inr (0, True)"
  by (simp add: test_def Let_def count_failed_same)

theorem test_always_passes_witness:
  "(0::int) \<le> 2
   \<and> bfe_slow False (0xFF :: 32 word) 0 8 \<noteq> (0 :: 32 word)
   \<and> test (\<lambda>s b l. 0) False (\<lambda>i. (0xFF :: 32 word, 0, 8)) 2 = Inr (0, True)"
proof -
  have h: "(0::int) \<le> 2" by simp
  have d: "bfe_slow False (0xFF :: 32 word) 0 8 \<noteq> (0 :: 32 word)"
    by code_simp
  show ?thesis
    using h d test_always_passes [OF h, of "\<lambda>s b l. 0" False "\<lambda>i. (0xFF :: 32 word, 0, 8)"]
    by simp
qed

section \<open>Lemmas about the builder\<close>

subsection \<open>Sequencing and loops\<close>


lemma ret_eq [simp]: "ret x s = (r, s') \<longleftrightarrow> r = Inr x \<and> s' = s"
  by (auto simp: ret_def)

lemma safeCall_cases:
  assumes "safeCall m f s = (r, s')"
  obtains (fail) e where "m s = (Inl e, s')" "r = Inl e"
        | (ok) x s1 where "m s = (Inr x, s1)" "f x s1 = (r, s')"
  using assms by (auto simp: safeCall_def split: prod.splits sum.splits)

lemma for_loop_stop: "\<not> j < n \<Longrightarrow> for_loop j n body a s = (Inr a, s)"
  by (subst for_loop.simps) simp

lemma for_loop_step:
  "j < n \<Longrightarrow> for_loop j n body a s = safeCall (body j a) (for_loop (Suc j) n body) s"
  by (subst for_loop.simps) (simp add: safeCall_def)

lemma for_loop_rule:
  assumes "I j a s" "j \<le> n"
    and step: "\<And>k a s r s'. k < n \<Longrightarrow> I k a s \<Longrightarrow> body k a s = (r, s') \<Longrightarrow>
                 (case r of Inl e \<Rightarrow> E s' | Inr a' \<Rightarrow> I (Suc k) a' s')"
    and run: "for_loop j n body a s = (r, s')"
  shows "case r of Inl e \<Rightarrow> E s' | Inr a' \<Rightarrow> I n a' s'"
  using assms(1,2) run
proof (induction "n - j" arbitrary: j a s)
  case 0
  then have "j = n" by simp
  with 0 show ?case by (auto simp: for_loop_stop)
next
  case (Suc d)
  then have lt: "j < n" by simp
  from Suc.prems(3) lt have run': "safeCall (body j a) (for_loop (Suc j) n body) s = (r, s')"
    by (simp add: for_loop_step)
  from run' show ?case
  proof (cases rule: safeCall_cases)
    case (fail e)
    with step [OF lt Suc.prems(1) fail(1)] show ?thesis by simp
  next
    case (ok a1 s1)
    from step [OF lt Suc.prems(1) ok(1)] have I1: "I (Suc j) a1 s1" by simp
    have "d = n - Suc j" using Suc.hyps(2) by simp
    from Suc.hyps(1) [OF this I1 _ ok(2)] lt show ?thesis by simp
  qed
qed

subsection \<open>The primitives\<close>

lemma same_mem_logged [simp]: "same_mem s (logged ok s)"
  by (simp add: same_mem_def logged_def)

lemma malloc_device_cases:
  assumes "malloc_device n s = (r, s')"
  obtains (fail) "r = Inl AllocFailed" "same_mem s s'"
        | (ok) p where "r = Inr p" "0 \<le> n" "allocated s p (replicate (nat n) VUninit) s'"
  using assms
  by (auto simp: malloc_device_def allocated_def logged_def same_mem_def split: if_splits)

lemma copy_in_cases:
  assumes "copy_in dst src n s = (r, s')"
  obtains (fail) e where "r = Inl e" "same_mem s s'"
        | (zero) "r = Inr ()" "n = 0" "same_mem s s'"
        | (ok) vs buf where "r = Inr ()" "0 < n" "src = Some vs" "heap_of s dst = Some buf"
            "nat n \<le> length buf" "s' = logged True (store dst (vs @ drop (nat n) buf) s)"
  using assms
  by (auto simp: copy_in_def split: if_splits option.splits)

lemma alloc_copy_cases:
  assumes run: "safeCall (malloc_device n) (\<lambda>p. safeCall (\<lambda>s. copy_in p (src s) n s) (\<lambda>u. k p)) s = (r, s')"
  obtains (fail) e where "r = Inl e" "same_mem s s'"
        | (fail_copy) e p where "r = Inl e" "allocated s p (replicate (nat n) VUninit) s'"
        | (ok) p vs s1 s2 where "0 \<le> n" "n = 0 \<Longrightarrow> vs = []"
            "allocated s p (replicate (nat n) VUninit) s1"
            "0 < n \<Longrightarrow> src s1 = Some vs" "allocated s p vs s2" "k p s2 = (r, s')"
  using run
proof (cases rule: safeCall_cases)
  case (fail e)
  then show ?thesis by (auto elim!: malloc_device_cases intro: that(1))
next
  case (ok p s1)
  from ok(1) have n0: "0 \<le> n" and al: "allocated s p (replicate (nat n) VUninit) s1"
    by (auto elim!: malloc_device_cases)
  from ok(2) show ?thesis
  proof (cases rule: safeCall_cases)
    case (fail e)
    from fail(1) have "same_mem s1 s'" by (auto elim!: copy_in_cases)
    with al have "allocated s p (replicate (nat n) VUninit) s'"
      by (auto simp: allocated_def same_mem_def split: ptr.splits)
    with fail show ?thesis by (auto intro: that(2))
  next
    case inner: (ok u s2)
    from inner(1) show ?thesis
    proof (cases rule: copy_in_cases)
      case (fail e)
      then show ?thesis by simp
    next
      case zero
      with al have "allocated s p [] s2"
        by (auto simp: allocated_def same_mem_def split: ptr.splits)
      with zero n0 al inner(2) show ?thesis by (auto intro: that(3) [where vs = "[]"])
    next
      case (ok vs buf)
      from ok(2,4) al obtain a where p: "p = DevP a"
        by (cases p) (auto simp: allocated_def heap_of_def)
      from al p ok(4) have buf: "buf = replicate (nat n) VUninit"
        by (auto simp: allocated_def heap_of_def)
      from al p ok(6) buf have "allocated s p vs s2"
        by (auto simp: allocated_def store_def logged_def)
      with ok n0 al inner(2) show ?thesis by (auto intro: that(3) [where vs = vs])
    qed
  qed
qed

lemma memcpy_as_copy_in: "memcpy dst q n = (\<lambda>s. copy_in dst (read_mem (heap_of s) q n) n s)"
  by (rule ext) (simp add: memcpy_def)

lemma memcpy_from_as_copy_in: "memcpy_from dst xs n = (\<lambda>s. copy_in dst (local_src xs n) n s)"
  by (rule ext) (simp add: memcpy_from_def)

lemma read_mem_length: "read_mem h p n = Some vs \<Longrightarrow> length vs = nat n"
  by (auto simp: read_mem_def split: if_splits option.splits)

lemma local_src_length: "local_src xs n = Some vs \<Longrightarrow> length vs = nat n"
  by (auto simp: local_src_def split: if_splits)

lemma local_src_exact [simp]: "local_src xs (int (length xs)) = Some xs"
  by (simp add: local_src_def)

subsection \<open>Extension of the machine\<close>

lemma ext_refl [simp]: "ext s s"
  by (simp add: ext_def)

lemma ext_trans: "ext s s1 \<Longrightarrow> ext s1 s2 \<Longrightarrow> ext s s2"
  by (auto simp: ext_def)

lemma same_mem_ext: "same_mem s s' \<Longrightarrow> ext s s'"
  by (simp add: same_mem_def ext_def)

lemma same_mem_good: "same_mem s s' \<Longrightarrow> good s \<Longrightarrow> good s'"
  by (simp add: same_mem_def good_def)

lemma allocated_ext: "allocated s p buf s' \<Longrightarrow> ext s s'"
  by (auto simp: allocated_def ext_def split: ptr.splits)

lemma allocated_good: "allocated s p buf s' \<Longrightarrow> good s \<Longrightarrow> good s'"
  by (auto simp: allocated_def good_def split: ptr.splits)

lemma device_from_mono: "good s \<Longrightarrow> ext s s' \<Longrightarrow> device_from b s \<subseteq>\<^sub>m device_from b s'"
  by (auto simp: map_le_def device_from_def good_def ext_def dom_def split: ptr.splits if_splits)
    (metis not_le_imp_less option.distinct(1))

lemma device_from_anti: "b \<le> b' \<Longrightarrow> device_from b' s \<subseteq>\<^sub>m device_from b s"
  by (auto simp: map_le_def device_from_def dom_def split: ptr.splits if_splits)

lemma device_from_dev_heap: "device_from b s \<subseteq>\<^sub>m dev_heap s"
  by (auto simp: map_le_def device_from_def dev_heap_def dom_def split: ptr.splits if_splits)

lemma dev_heap_mono: "good s \<Longrightarrow> ext s s' \<Longrightarrow> dev_heap s \<subseteq>\<^sub>m dev_heap s'"
  by (auto simp: map_le_def dev_heap_def good_def ext_def dom_def split: ptr.splits)
    (metis not_le_imp_less option.distinct(1))

lemma host_heap_ext: "ext s s' \<Longrightarrow> host_heap s' = host_heap s"
  by (rule HOL.ext) (simp add: host_heap_def ext_def split: ptr.splits)

lemma host_leafy_ext: "ext s s' \<Longrightarrow> host_leafy s' = host_leafy s"
  by (simp add: host_leafy_def ext_def)

subsection \<open>Reading is monotone in the memory\<close>

lemma read_mem_mono: "read_mem h p n = Some vs \<Longrightarrow> h \<subseteq>\<^sub>m h' \<Longrightarrow> read_mem h' p n = Some vs"
  by (auto simp: read_mem_def map_le_def dom_def split: if_splits option.splits)

lemma holds_mono: "holds h p n vs \<Longrightarrow> h \<subseteq>\<^sub>m h' \<Longrightarrow> holds h' p n vs"
  by (auto simp: holds_def map_le_def dom_def split: ptr.splits)

lemma complete_mono: "complete h p n \<Longrightarrow> h \<subseteq>\<^sub>m h' \<Longrightarrow> complete h' p n"
  by (auto simp: complete_def map_le_def dom_def split: ptr.splits option.splits)

lemma val_ok_mono: "val_ok h n v \<Longrightarrow> h \<subseteq>\<^sub>m h' \<Longrightarrow> val_ok h' n v"
  by (cases v) (auto simp: val_ok_def intro: complete_mono)

lemma holds_read_mem: "holds h p n vs \<Longrightarrow> read_mem h p n = Some vs"
  by (auto simp: holds_def read_mem_def split: ptr.splits)

lemma holds_complete: "holds h p n vs \<Longrightarrow> VUninit \<notin> set vs \<Longrightarrow> complete h p n"
  by (auto simp: holds_def complete_def split: ptr.splits)

lemma holds_nonnull: "holds h p n vs \<Longrightarrow> 0 < n \<Longrightarrow> is_dev p"
  by (auto simp: holds_def is_dev_def split: ptr.splits)

lemma allocated_holds:
  "allocated s p vs s' \<Longrightarrow> 0 \<le> n \<Longrightarrow> length vs = nat n \<Longrightarrow> holds (device_from (next_free s) s') p n vs"
  by (auto simp: allocated_def holds_def device_from_def split: ptr.splits)

lemma mirrors_cell_state_mono:
  "mirrors_cell_state h hh n c c0 \<Longrightarrow> h \<subseteq>\<^sub>m h' \<Longrightarrow> mirrors_cell_state h' hh n c c0"
  by (auto simp: mirrors_cell_state_def intro: holds_mono)

lemma mirrors_connectivity_mono:
  "mirrors_connectivity h hh c c0 \<Longrightarrow> h \<subseteq>\<^sub>m h' \<Longrightarrow> mirrors_connectivity h' hh c c0"
  unfolding mirrors_connectivity_def by (blast intro: holds_mono)

lemma mirrors_geometry_mono:
  "mirrors_geometry h hh g g0 \<Longrightarrow> h \<subseteq>\<^sub>m h' \<Longrightarrow> mirrors_geometry h' hh g g0"
  unfolding mirrors_geometry_def by (blast intro: holds_mono)

lemma list_all2_mono_heap:
  assumes "list_all2 (R h) xs ys" "\<And>x y. R h x y \<Longrightarrow> R h' x y"
  shows "list_all2 (R h') xs ys"
  using assms by (auto elim!: list_all2_mono)

lemma mirrors_domain_mono:
  assumes "mirrors_domain h hh n D d" "h \<subseteq>\<^sub>m h'"
  shows "mirrors_domain h' hh n D d"
proof -
  note m = assms(2)
  have cs: "\<And>cs. list_all2 (mirrors_cell_state h hh n) cs (cell_state d)
              \<Longrightarrow> list_all2 (mirrors_cell_state h' hh n) cs (cell_state d)"
    by (erule list_all2_mono) (rule mirrors_cell_state_mono [OF _ m])
  have cc: "\<And>cc. list_all2 (mirrors_connectivity h hh) cc (cellConnectivity (mesh d))
              \<Longrightarrow> list_all2 (mirrors_connectivity h' hh) cc (cellConnectivity (mesh d))"
    by (erule list_all2_mono) (rule mirrors_connectivity_mono [OF _ m])
  have cg: "\<And>cg. list_all2 (mirrors_geometry h hh) cg (cellGeometry (mesh d))
              \<Longrightarrow> list_all2 (mirrors_geometry h' hh) cg (cellGeometry (mesh d))"
    by (erule list_all2_mono) (rule mirrors_geometry_mono [OF _ m])
  from assms(1) show ?thesis
    unfolding mirrors_domain_def
    by (blast intro: holds_mono [OF _ m] cs cc cg)
qed

lemma read_source:
  assumes "ext s s1" "src_ok q n" "read_mem (heap_of s1) q n = Some vs"
  shows "read_mem (host_heap s) q n = Some vs"
  using assms
  by (cases q) (auto simp: read_mem_def src_ok_def is_dev_def heap_of_def host_heap_def ext_def
                     split: if_splits option.splits)

subsection \<open>What the steps of the build keep\<close>

lemma stays_refl [simp]: "stays n B s s"
  by (simp add: stays_def)

lemma stays_trans: "stays n B s s1 \<Longrightarrow> stays n B s1 s2 \<Longrightarrow> stays n B s s2"
  unfolding stays_def using ext_trans host_leafy_ext by blast

lemma stays_ext: "stays n B s s' \<Longrightarrow> ext s s'"
  by (simp add: stays_def)

lemma stays_good: "stays n B s s' \<Longrightarrow> good s \<Longrightarrow> good s'"
  by (simp add: stays_def)

lemma same_mem_closed: "same_mem s s' \<Longrightarrow> closed n s \<Longrightarrow> closed n s'"
proof -
  assume a: "same_mem s s'" and c: "closed n s"
  from a have "dev_heap s' = dev_heap s"
    by (intro HOL.ext) (simp add: dev_heap_def same_mem_def split: ptr.splits)
  with a c show ?thesis by (simp add: closed_def same_mem_def)
qed

lemma same_mem_stays: "same_mem s s' \<Longrightarrow> stays n B s s'"
  by (simp add: stays_def same_mem_ext same_mem_good same_mem_closed)

lemma allocated_closed:
  assumes al: "allocated s p vs s'" and g: "good s" and c: "closed n s"
    and ok: "\<forall>v \<in> set vs. val_ok (dev_heap s') n v"
  shows "closed n s'"
  unfolding closed_def
proof (intro allI impI ballI)
  fix a buf v
  assume d: "dmem s' a = Some buf" and v: "v \<in> set buf"
  have m: "dev_heap s \<subseteq>\<^sub>m dev_heap s'"
    by (rule dev_heap_mono [OF g allocated_ext [OF al]])
  show "val_ok (dev_heap s') n v"
  proof (cases "dmem s a = Some buf")
    case True
    with c v have "val_ok (dev_heap s) n v" by (auto simp: closed_def)
    then show ?thesis by (rule val_ok_mono [OF _ m])
  next
    case False
    with al d have "buf = vs" by (auto simp: allocated_def split: ptr.splits if_splits)
    with ok v show ?thesis by simp
  qed
qed

lemma allocated_stays:
  assumes "allocated s p vs s'"
    and "B \<Longrightarrow> good s \<Longrightarrow> host_leafy s \<Longrightarrow> closed n s \<Longrightarrow> \<forall>v \<in> set vs. val_ok (dev_heap s') n v"
  shows "stays n B s s'"
  using assms by (auto simp: stays_def allocated_ext allocated_good intro: allocated_closed)

lemma leaf_val_ok: "leaf v \<Longrightarrow> val_ok h n v"
  by (cases v) (simp_all add: val_ok_def)

lemma leaf_not_uninit: "list_all leaf vs \<Longrightarrow> VUninit \<notin> set vs"
  by (auto simp: list_all_iff)

lemma allocated_uninit_stays: "allocated s p (replicate k VUninit) s' \<Longrightarrow> stays n B s s'"
  by (rule allocated_stays) (auto simp: val_ok_def)

lemma host_read_leaf:
  assumes "host_leafy s" "read_mem (host_heap s) q n = Some vs"
  shows "list_all leaf vs"
proof (cases "n \<le> 0")
  case True
  with assms(2) show ?thesis by (simp add: read_mem_def)
next
  case False
  with assms(2) obtain buf where b: "host_heap s q = Some buf" and vs: "vs = take (nat n) buf"
    by (auto simp: read_mem_def split: option.splits if_splits)
  from b obtain a where "hmem s a = Some buf"
    by (cases q) (auto simp: host_heap_def)
  with assms(1) have "list_all leaf buf" by (auto simp: host_leafy_def)
  with vs show ?thesis by (auto simp: list_all_iff dest: in_set_takeD)
qed

lemma allocated_leaf_stays:
  assumes "allocated s p vs s'" "B \<Longrightarrow> host_leafy s0 \<Longrightarrow> list_all leaf vs" "ext s0 s"
  shows "stays n B s s'"
proof (rule allocated_stays [OF assms(1)])
  assume B and "host_leafy s"
  with assms(3) have "host_leafy s0" by (simp add: host_leafy_ext)
  with \<open>B\<close> have "list_all leaf vs" by (rule assms(2))
  then show "\<forall>v \<in> set vs. val_ok (dev_heap s') n v"
    by (auto simp: list_all_iff intro: leaf_val_ok)
qed

lemma held_complete:
  assumes "holds h p n vs" "read_mem (host_heap s0) q n = Some vs" "host_leafy s0"
  shows "complete h p n"
  using assms(1) leaf_not_uninit [OF host_read_leaf [OF assms(3,2)]] by (rule holds_complete)

lemma mirrors_cell_state_ok:
  assumes "mirrors_cell_state h (host_heap s0) n c c0" "host_leafy s0"
  shows "val_ok h n (VCellState c)"
  using assms by (auto simp: mirrors_cell_state_def val_ok_def intro: held_complete)

lemma mirrors_connectivity_ok:
  assumes "mirrors_connectivity h (host_heap s0) c c0" "host_leafy s0"
  shows "val_ok h n (VConn c)"
  using assms by (auto simp: mirrors_connectivity_def val_ok_def intro: held_complete)

lemma mirrors_geometry_ok:
  assumes "mirrors_geometry h (host_heap s0) g g0" "host_leafy s0"
  shows "val_ok h n (VGeom g)"
  using assms by (auto simp: mirrors_geometry_def val_ok_def intro: held_complete)

lemma mirrors_domain_ok:
  assumes "mirrors_domain h hh n D d"
  shows "val_ok h n (VDomain D)"
  using assms
  by (auto simp: mirrors_domain_def val_ok_def intro!: holds_complete)

subsection \<open>Staging arrays\<close>

lemma length_upd [simp]: "length (upd i f xs) = length xs"
  by (simp add: upd_def)

lemma nth_upd_same [simp]: "i < length xs \<Longrightarrow> upd i f xs ! i = f (xs ! i)"
  by (simp add: upd_def)

lemma nth_upd_other [simp]: "k \<noteq> i \<Longrightarrow> upd i f xs ! k = xs ! k"
  by (simp add: upd_def)

subsection \<open>A loop that fills a staging array\<close>

lemma staging_loop:
  fixes M :: "('cs, 'v, 'fa, 'gp) heap \<Rightarrow> ('cs, 'v, 'fa, 'gp) heap \<Rightarrow> 'a \<Rightarrow> 'a \<Rightarrow> nat \<Rightarrow> bool"
    and s0 :: "('cs, 'v, 'fa, 'gp) machine"
  assumes run: "for_loop 0 n body st0 s0 = (r, s')"
    and len: "length st0 = n"
    and body: "\<And>k st s r s1. k < n \<Longrightarrow> length st = n \<Longrightarrow> body k st s = (r, s1) \<Longrightarrow>
                 stays N B s s1 \<and>
                 (\<forall>st'. r = Inr st' \<longrightarrow>
                    (\<exists>c. st' = st[k := c] \<and>
                         (good s \<longrightarrow> M (device_from (next_free s) s1) (host_heap s) c (st ! k) k)))"
    and mono: "\<And>h h' hh c x k. M h hh c x k \<Longrightarrow> h \<subseteq>\<^sub>m h' \<Longrightarrow> M h' hh c x k"
  shows "stays N B s0 s' \<and>
         (\<forall>st. r = Inr st \<longrightarrow> length st = n \<and>
            (good s0 \<longrightarrow> (\<forall>i<n. M (device_from (next_free s0) s') (host_heap s0) (st ! i) (st0 ! i) i)))"
proof -
  define b where "b = next_free s0"
  define hh where "hh = host_heap s0"
  define I where "I = (\<lambda>k st (s :: ('cs, 'v, 'fa, 'gp) machine).
     length st = n \<and> stays N B s0 s \<and> (\<forall>i. k \<le> i \<and> i < n \<longrightarrow> st ! i = st0 ! i)
     \<and> (good s0 \<longrightarrow> (\<forall>i<k. M (device_from b s) hh (st ! i) (st0 ! i) i)))"
  have I0: "I 0 st0 s0" by (simp add: I_def len)
  have step: "case r of Inl e \<Rightarrow> stays N B s0 s1 | Inr st' \<Rightarrow> I (Suc k) st' s1"
    if k: "k < n" and Ik: "I k st s" and bd: "body k st s = (r, s1)" for k st s r s1
  proof -
    from Ik have lst: "length st = n" and st0s: "stays N B s0 s"
      and rest: "\<forall>i. k \<le> i \<and> i < n \<longrightarrow> st ! i = st0 ! i"
      and sofar: "good s0 \<longrightarrow> (\<forall>i<k. M (device_from b s) hh (st ! i) (st0 ! i) i)"
      by (simp_all add: I_def)
    from body [OF k lst bd] have ss1: "stays N B s s1"
      and res: "\<forall>st'. r = Inr st' \<longrightarrow>
                  (\<exists>c. st' = st[k := c] \<and>
                       (good s \<longrightarrow> M (device_from (next_free s) s1) (host_heap s) c (st ! k) k))"
      by simp_all
    have s0s1: "stays N B s0 s1" by (rule stays_trans [OF st0s ss1])
    show ?thesis
    proof (cases r)
      case (Inl e)
      with s0s1 show ?thesis by simp
    next
      case (Inr st')
      with res obtain c where st': "st' = st[k := c]"
        and c: "good s \<longrightarrow> M (device_from (next_free s) s1) (host_heap s) c (st ! k) k"
        by blast
      have new: "M (device_from b s1) hh (st' ! i) (st0 ! i) i" if g0: "good s0" and i: "i < Suc k" for i
      proof -
        from g0 st0s have gs: "good s" by (rule stays_good [rotated])
        have e: "ext s s1" by (rule stays_ext [OF ss1])
        have e0: "ext s0 s" by (rule stays_ext [OF st0s])
        show ?thesis
        proof (cases "i = k")
          case True
          from c gs have "M (device_from (next_free s) s1) (host_heap s) c (st ! k) k" by simp
          moreover have "host_heap s = hh" by (simp add: hh_def host_heap_ext [OF e0])
          moreover from rest k have "st ! k = st0 ! k" by simp
          moreover have "device_from (next_free s) s1 \<subseteq>\<^sub>m device_from b s1"
            using e0 by (intro device_from_anti) (simp add: b_def ext_def)
          ultimately have "M (device_from b s1) hh c (st0 ! k) k" by (auto intro: mono)
          with True st' k lst show ?thesis by simp
        next
          case False
          with i have ik: "i < k" by simp
          with sofar g0 have "M (device_from b s) hh (st ! i) (st0 ! i) i" by simp
          then have "M (device_from b s1) hh (st ! i) (st0 ! i) i"
            by (rule mono) (rule device_from_mono [OF gs e])
          with False st' show ?thesis by simp
        qed
      qed
      from st' lst rest have "length st' = n" "\<forall>i. Suc k \<le> i \<and> i < n \<longrightarrow> st' ! i = st0 ! i"
        by auto
      with s0s1 new Inr show ?thesis by (simp add: I_def)
    qed
  qed
  have "case r of Inl e \<Rightarrow> stays N B s0 s' | Inr st \<Rightarrow> I n st s'"
    by (rule for_loop_rule [where I = I and j = 0, OF I0 _ step run]) simp_all
  then show ?thesis
    by (cases r) (auto simp: I_def b_def hh_def)
qed

subsection \<open>An allocation and the transfer into it\<close>

lemma alloc_copy_host:
  assumes run: "safeCall (malloc_device n) (\<lambda>p. safeCall (memcpy p q n) (\<lambda>u. k p)) s = (r, s')"
    and src: "B \<longrightarrow> src_ok q n"
  obtains (fail) e where "r = Inl e" "stays N B s s'"
        | (ok) p vs s2 where "stays N B s s2" "holds (device_from (next_free s) s2) p n vs"
            "B \<Longrightarrow> read_mem (host_heap s) q n = Some vs" "k p s2 = (r, s')"
proof -
  from run have run': "safeCall (malloc_device n)
      (\<lambda>p. safeCall (\<lambda>s. copy_in p (read_mem (heap_of s) q n) n s) (\<lambda>u. k p)) s = (r, s')"
    by (simp add: memcpy_as_copy_in)
  from run' show ?thesis
  proof (cases rule: alloc_copy_cases)
    case (fail e)
    then show ?thesis by (auto intro: that(1) same_mem_stays)
  next
    case (fail_copy e p)
    then show ?thesis by (auto intro: that(1) allocated_uninit_stays)
  next
    case (ok p vs s1 s2)
    have rd: "read_mem (host_heap s) q n = Some vs" if B
    proof (cases "0 < n")
      case True
      with ok(4) have "read_mem (heap_of s1) q n = Some vs" by simp
      with allocated_ext [OF ok(3)] src [rule_format, OF that] show ?thesis by (rule read_source)
    next
      case False
      with ok(1,2) show ?thesis by (simp add: read_mem_def)
    qed
    have lv: "length vs = nat n"
    proof (cases "0 < n")
      case True
      with ok(4) have "read_mem (heap_of s1) q n = Some vs" by simp
      then show ?thesis by (rule read_mem_length)
    next
      case False
      with ok(1,2) show ?thesis by simp
    qed
    have "stays N B s s2"
      using ok(5) by (rule allocated_leaf_stays [where ?s0.0 = s]) (auto intro: host_read_leaf rd)
    moreover have "holds (device_from (next_free s) s2) p n vs"
      using ok(5,1) lv by (rule allocated_holds)
    ultimately show ?thesis using rd ok(6) by (rule that(2))
  qed
qed

lemma alloc_copy_local:
  assumes run: "safeCall (malloc_device n) (\<lambda>p. safeCall (memcpy_from p xs n) (\<lambda>u. k p)) s = (r, s')"
    and n: "n = int (length xs)"
  obtains (fail) e where "r = Inl e" "stays N B s s'"
        | (ok) p s2 where "allocated s p xs s2" "holds (device_from (next_free s) s2) p n xs"
            "k p s2 = (r, s')"
proof -
  from run have run': "safeCall (malloc_device n)
      (\<lambda>p. safeCall (\<lambda>s. copy_in p (local_src xs n) n s) (\<lambda>u. k p)) s = (r, s')"
    by (simp add: memcpy_from_as_copy_in)
  from run' show ?thesis
  proof (cases rule: alloc_copy_cases)
    case (fail e)
    then show ?thesis by (auto intro: that(1) same_mem_stays)
  next
    case (fail_copy e p)
    then show ?thesis by (auto intro: that(1) allocated_uninit_stays)
  next
    case (ok p vs s1 s2)
    have vs: "vs = xs"
    proof (cases "0 < n")
      case True
      with ok(4) n show ?thesis by simp
    next
      case False
      with ok(1,2) n show ?thesis by simp
    qed
    have "holds (device_from (next_free s) s2) p n xs"
      using ok(5,1) n unfolding vs by (intro allocated_holds) simp_all
    with ok(5,6) show ?thesis unfolding vs by (intro that(2)) simp_all
  qed
qed

lemma stays_then_allocated:
  assumes st: "stays N B s s1" and al: "allocated s1 p vs s2"
    and ok: "B \<Longrightarrow> good s \<Longrightarrow> host_leafy s \<Longrightarrow> \<forall>v \<in> set vs. val_ok (dev_heap s2) N v"
  shows "stays N B s s2"
  unfolding stays_def
proof (intro conjI impI)
  show "ext s s2" by (rule ext_trans [OF stays_ext [OF st] allocated_ext [OF al]])
  show "good s2" if "good s" by (rule allocated_good [OF al stays_good [OF st that]])
  show "closed N s2" if "B \<and> good s \<and> host_leafy s \<and> closed N s"
  proof -
    from that st have "good s1" "closed N s1" by (auto simp: stays_def)
    moreover from that have "\<forall>v \<in> set vs. val_ok (dev_heap s2) N v" by (intro ok) simp_all
    ultimately show ?thesis by (intro allocated_closed [OF al])
  qed
qed

lemma memcpy_stage_cases:
  assumes "memcpy_stage xs (int (length xs)) s = (r, s')"
  obtains (fail) e where "r = Inl e" "same_mem s s'"
        | (ok) "r = Inr xs" "same_mem s s'"
  using assms by (auto simp: memcpy_stage_def split: if_splits)

subsection \<open>The three loops over the cells\<close>

lemma cell_state_body_step:
  assumes bd: "cell_state_body numEG hs k st s = (r, s1)"
    and k: "k < length st"
    and src: "B \<longrightarrow> src_ok (total (hs ! k)) numEG"
  shows "stays numEG B s s1 \<and>
         (\<forall>st'. r = Inr st' \<longrightarrow>
            (\<exists>c. st' = st[k := c] \<and>
                 (good s \<longrightarrow> B \<longrightarrow> cs_other c = cs_other (st ! k) \<and>
                    (\<exists>vs. holds (device_from (next_free s) s1) (total c) numEG vs
                          \<and> read_mem (host_heap s) (total (hs ! k)) numEG = Some vs))))"
proof -
  from bd k have run: "safeCall (malloc_device numEG)
      (\<lambda>p. safeCall (memcpy p (total (hs ! k)) numEG)
              (\<lambda>u. ret (upd k (\<lambda>c. c\<lparr>total := p\<rparr>) st))) s = (r, s1)"
    by (simp add: cell_state_body_def Let_def)
  from run src show ?thesis
  proof (cases rule: alloc_copy_host [where N = numEG and B = B])
    case (fail e)
    then show ?thesis by simp
  next
    case (ok p vs s2)
    from ok(4) have r: "r = Inr (st[k := (st ! k)\<lparr>total := p\<rparr>])" and s: "s1 = s2"
      by (auto simp: upd_def)
    from ok(1,2,3) show ?thesis unfolding r s by auto
  qed
qed

lemma connectivity_body_step:
  assumes bd: "connectivity_body hs k st s = (r, s1)"
    and k: "k < length st"
    and src: "B \<longrightarrow> src_ok (c_point (hs ! k)) (num_points (hs ! k))"
             "B \<longrightarrow> src_ok (c_facet (hs ! k)) (num_facets (hs ! k))"
  shows "stays N B s s1 \<and>
         (\<forall>st'. r = Inr st' \<longrightarrow>
            (\<exists>c. st' = st[k := c] \<and>
                 (good s \<longrightarrow> B \<longrightarrow> mirrors_connectivity (device_from (next_free s) s1) (host_heap s) c (hs ! k))))"
proof -
  let ?n1 = "num_points (hs ! k)" and ?n2 = "num_facets (hs ! k)"
  let ?c = "\<lambda>p q. (st ! k)\<lparr>num_points := ?n1, num_facets := ?n2, c_point := p, c_facet := q\<rparr>"
  from bd k have run: "safeCall (malloc_device ?n1)
      (\<lambda>p. safeCall (memcpy p (c_point (hs ! k)) ?n1)
         (\<lambda>u. safeCall (malloc_device ?n2)
            (\<lambda>q. safeCall (memcpy q (c_facet (hs ! k)) ?n2)
               (\<lambda>u. ret (st[k := ?c p q]))))) s = (r, s1)"
    by (simp add: connectivity_body_def Let_def upd_def)
  from run src(1) show ?thesis
  proof (cases rule: alloc_copy_host [where N = N and B = B])
    case (fail e)
    then show ?thesis by simp
  next
    case first: (ok p vs s2)
    from first(4) src(2) show ?thesis
    proof (cases rule: alloc_copy_host [where N = N and B = B])
      case (fail e)
      with first(1) show ?thesis by (auto intro: stays_trans)
    next
      case (ok q ws s3)
      from ok(4) have r: "r = Inr (st[k := ?c p q])" and s: "s1 = s3" by auto
      have st: "stays N B s s3" by (rule stays_trans [OF first(1) ok(1)])
      have "mirrors_connectivity (device_from (next_free s) s3) (host_heap s) (?c p q) (hs ! k)"
        if g: "good s" and B
      proof -
        have g2: "good s2" by (rule stays_good [OF first(1) g])
        have e2: "ext s s2" by (rule stays_ext [OF first(1)])
        have "device_from (next_free s) s2 \<subseteq>\<^sub>m device_from (next_free s) s3"
          by (rule device_from_mono [OF g2 stays_ext [OF ok(1)]])
        with first(2) have h1: "holds (device_from (next_free s) s3) p ?n1 vs"
          by (rule holds_mono)
        have "device_from (next_free s2) s3 \<subseteq>\<^sub>m device_from (next_free s) s3"
          using e2 by (intro device_from_anti) (simp add: ext_def)
        with ok(2) have h2: "holds (device_from (next_free s) s3) q ?n2 ws"
          by (rule holds_mono)
        from ok(3) [OF \<open>B\<close>] have "read_mem (host_heap s) (c_facet (hs ! k)) ?n2 = Some ws"
          by (simp add: host_heap_ext [OF e2])
        with h1 h2 first(3) [OF \<open>B\<close>] show ?thesis
          by (auto simp: mirrors_connectivity_def)
      qed
      with st show ?thesis unfolding r s by auto
    qed
  qed
qed

lemma geometry_body_step:
  assumes bd: "geometry_body hs k st s = (r, s1)"
    and k: "k < length st"
    and src: "B \<longrightarrow> src_ok (g_facet (hs ! k)) (g_size (hs ! k))"
  shows "stays N B s s1 \<and>
         (\<forall>st'. r = Inr st' \<longrightarrow>
            (\<exists>c. st' = st[k := c] \<and>
                 (good s \<longrightarrow> B \<longrightarrow> mirrors_geometry (device_from (next_free s) s1) (host_heap s) c (hs ! k))))"
proof -
  let ?n = "g_size (hs ! k)"
  from bd k have run: "safeCall (malloc_device ?n)
      (\<lambda>p. safeCall (memcpy p (g_facet (hs ! k)) ?n)
              (\<lambda>u. ret (st[k := (st ! k)\<lparr>g_size := ?n, g_facet := p\<rparr>]))) s = (r, s1)"
    by (simp add: geometry_body_def Let_def upd_def)
  from run src show ?thesis
  proof (cases rule: alloc_copy_host [where N = N and B = B])
    case (fail e)
    then show ?thesis by simp
  next
    case (ok p vs s2)
    from ok(4) have r: "r = Inr (st[k := (st ! k)\<lparr>g_size := ?n, g_facet := p\<rparr>])" and s: "s1 = s2"
      by auto
    from ok(1,2,3) show ?thesis unfolding r s by (auto simp: mirrors_geometry_def)
  qed
qed

lemma cell_state_loop:
  assumes run: "for_loop 0 (length hs) (cell_state_body numEG hs) hs s = (r, s')"
    and src: "B \<Longrightarrow> \<forall>c \<in> set hs. src_ok (total c) numEG"
  shows "stays numEG B s s' \<and>
         (\<forall>st. r = Inr st \<longrightarrow> length st = length hs \<and> (good s \<longrightarrow> B \<longrightarrow>
            list_all2 (mirrors_cell_state (device_from (next_free s) s') (host_heap s) numEG) st hs))"
proof -
  let ?M = "\<lambda>h hh c x k. B \<longrightarrow> cs_other c = cs_other (x :: 'a MC_Cell_State) \<and>
              (\<exists>vs. holds h (total c) numEG vs \<and> read_mem hh (total (hs ! k)) numEG = Some vs)"
  have "stays numEG B s s' \<and>
        (\<forall>st. r = Inr st \<longrightarrow> length st = length hs \<and>
           (good s \<longrightarrow> (\<forall>i<length hs. ?M (device_from (next_free s) s') (host_heap s) (st ! i) (hs ! i) i)))"
  proof (rule staging_loop [where M = ?M, OF run refl])
    fix k st s r s1
    assume "k < length hs" "length st = length hs" "cell_state_body numEG hs k st s = (r, s1)"
    with src show "stays numEG B s s1 \<and>
         (\<forall>st'. r = Inr st' \<longrightarrow>
            (\<exists>c. st' = st[k := c] \<and>
                 (good s \<longrightarrow> ?M (device_from (next_free s) s1) (host_heap s) c (st ! k) k)))"
      by (intro cell_state_body_step) auto
  next
    fix h h' hh :: "('a, 'b, 'c, 'd) heap" and c x :: "'a MC_Cell_State" and k
    assume "?M h hh c x k" "h \<subseteq>\<^sub>m h'"
    then show "?M h' hh c x k" by (auto intro: holds_mono)
  qed
  then show ?thesis
    by (auto simp: list_all2_conv_all_nth mirrors_cell_state_def)
qed

lemma connectivity_loop:
  assumes run: "for_loop 0 (length hs) (connectivity_body hs) st0 s = (r, s')"
    and len: "length st0 = length hs"
    and src: "B \<Longrightarrow> \<forall>c \<in> set hs. src_ok (c_point c) (num_points c) \<and> src_ok (c_facet c) (num_facets c)"
  shows "stays N B s s' \<and>
         (\<forall>st. r = Inr st \<longrightarrow> length st = length hs \<and> (good s \<longrightarrow> B \<longrightarrow>
            list_all2 (mirrors_connectivity (device_from (next_free s) s') (host_heap s)) st hs))"
proof -
  let ?M = "\<lambda>h hh c (x :: MC_Facet_Adjacency_Cell) k. B \<longrightarrow> mirrors_connectivity h hh c (hs ! k)"
  have "stays N B s s' \<and>
        (\<forall>st. r = Inr st \<longrightarrow> length st = length hs \<and>
           (good s \<longrightarrow> (\<forall>i<length hs. ?M (device_from (next_free s) s') (host_heap s) (st ! i) (st0 ! i) i)))"
  proof (rule staging_loop [where M = ?M, OF run len])
    fix k st s r s1
    assume "k < length hs" "length st = length hs" "connectivity_body hs k st s = (r, s1)"
    with src show "stays N B s s1 \<and>
         (\<forall>st'. r = Inr st' \<longrightarrow>
            (\<exists>c. st' = st[k := c] \<and>
                 (good s \<longrightarrow> ?M (device_from (next_free s) s1) (host_heap s) c (st ! k) k)))"
      by (intro connectivity_body_step) auto
  next
    fix h h' hh :: "('a, 'b, 'c, 'd) heap" and c x :: MC_Facet_Adjacency_Cell and k
    assume "?M h hh c x k" "h \<subseteq>\<^sub>m h'"
    then show "?M h' hh c x k" by (auto intro: mirrors_connectivity_mono)
  qed
  then show ?thesis
    by (auto simp: list_all2_conv_all_nth)
qed

lemma geometry_loop:
  assumes run: "for_loop 0 (length hs) (geometry_body hs) st0 s = (r, s')"
    and len: "length st0 = length hs"
    and src: "B \<Longrightarrow> \<forall>g \<in> set hs. src_ok (g_facet g) (g_size g)"
  shows "stays N B s s' \<and>
         (\<forall>st. r = Inr st \<longrightarrow> length st = length hs \<and> (good s \<longrightarrow> B \<longrightarrow>
            list_all2 (mirrors_geometry (device_from (next_free s) s') (host_heap s)) st hs))"
proof -
  let ?M = "\<lambda>h hh c (x :: MC_Facet_Geometry_Cell) k. B \<longrightarrow> mirrors_geometry h hh c (hs ! k)"
  have "stays N B s s' \<and>
        (\<forall>st. r = Inr st \<longrightarrow> length st = length hs \<and>
           (good s \<longrightarrow> (\<forall>i<length hs. ?M (device_from (next_free s) s') (host_heap s) (st ! i) (st0 ! i) i)))"
  proof (rule staging_loop [where M = ?M, OF run len])
    fix k st s r s1
    assume "k < length hs" "length st = length hs" "geometry_body hs k st s = (r, s1)"
    with src show "stays N B s s1 \<and>
         (\<forall>st'. r = Inr st' \<longrightarrow>
            (\<exists>c. st' = st[k := c] \<and>
                 (good s \<longrightarrow> ?M (device_from (next_free s) s1) (host_heap s) c (st ! k) k)))"
      by (intro geometry_body_step) auto
  next
    fix h h' hh :: "('a, 'b, 'c, 'd) heap" and c x :: MC_Facet_Geometry_Cell and k
    assume "?M h hh c x k" "h \<subseteq>\<^sub>m h'"
    then show "?M h' hh c x k" by (auto intro: mirrors_geometry_mono)
  qed
  then show ?thesis
    by (auto simp: list_all2_conv_all_nth)
qed

subsection \<open>The five parts of one iteration\<close>

lemma lift_heap:
  assumes "ext s0 s" "good s1" "ext s1 s2"
  shows "device_from (next_free s) s1 \<subseteq>\<^sub>m device_from (next_free s0) s2"
proof -
  from assms(1) have "next_free s0 \<le> next_free s" by (simp add: ext_def)
  then have "device_from (next_free s) s1 \<subseteq>\<^sub>m device_from (next_free s0) s1"
    by (rule device_from_anti)
  also have "\<dots> \<subseteq>\<^sub>m device_from (next_free s0) s2"
    by (rule device_from_mono [OF assms(2,3)])
  finally show ?thesis .
qed

lemma staged_val_ok:
  assumes "list_all2 R cs hs" "\<And>c c0. R c c0 \<Longrightarrow> val_ok h N (V c)" "h \<subseteq>\<^sub>m h'"
  shows "\<forall>v \<in> set (map V cs). val_ok h' N v"
proof
  fix v assume "v \<in> set (map V cs)"
  then obtain i where i: "i < length cs" and v: "v = V (cs ! i)"
    by (auto simp: in_set_conv_nth)
  from assms(1) i have "R (cs ! i) (hs ! i)" by (simp add: list_all2_conv_all_nth)
  then have "val_ok h N (V (cs ! i))" by (rule assms(2))
  then show "val_ok h' N v" unfolding v by (rule val_ok_mono [OF _ assms(3)])
qed

lemma copy_cell_state_spec:
  assumes run: "copy_cell_state numEG d D s = (r, s')"
    and src: "B \<Longrightarrow> \<forall>c \<in> set (cell_state d). src_ok (total c) numEG"
  shows "stays numEG B s s' \<and>
    (\<forall>D'. r = Inr D' \<longrightarrow>
      (\<exists>p cs. D' = D\<lparr>domainIndex_d := domainIndex d, global_domain_d := global_domain d,
                       cell_stateSize := int (length (cell_state d)), cell_state_d := p,
                       mesh_d := (mesh_d D)\<lparr>domainGid_d := domainGid (mesh d)\<rparr>\<rparr>
         \<and> holds (device_from (next_free s) s') p (int (length (cell_state d))) (map VCellState cs)
         \<and> (good s \<longrightarrow> B \<longrightarrow>
               list_all2 (mirrors_cell_state (device_from (next_free s) s') (host_heap s) numEG)
                 cs (cell_state d))))"
proof -
  let ?hs = "cell_state d"
  let ?n = "int (length ?hs)"
  let ?D = "\<lambda>p. D\<lparr>domainIndex_d := domainIndex d, global_domain_d := global_domain d,
                   cell_stateSize := ?n, cell_state_d := p,
                   mesh_d := (mesh_d D)\<lparr>domainGid_d := domainGid (mesh d)\<rparr>\<rparr>"
  from run have run': "safeCall (memcpy_stage ?hs ?n)
     (\<lambda>st. safeCall (for_loop 0 (length ?hs) (cell_state_body numEG ?hs) st)
        (\<lambda>st. safeCall (malloc_device ?n)
           (\<lambda>p. safeCall (memcpy_from p (map VCellState st) ?n) (\<lambda>u. ret (?D p))))) s = (r, s')"
    by (simp add: copy_cell_state_def Let_def)
  from run' show ?thesis
  proof (cases rule: safeCall_cases)
    case (fail e)
    then show ?thesis by (auto elim!: memcpy_stage_cases intro: same_mem_stays)
  next
    case stage: (ok st s1)
    from stage(1) have st: "st = ?hs" and m1: "same_mem s s1"
      by (auto elim!: memcpy_stage_cases)
    have s01: "stays numEG B s s1" by (rule same_mem_stays [OF m1])
    from stage(2) show ?thesis
    proof (cases rule: safeCall_cases)
      case (fail e)
      have "stays numEG B s1 s'"
        using cell_state_loop [OF fail(1) [unfolded st], of B] src by simp
      with fail(2) s01 show ?thesis by (auto intro: stays_trans)
    next
      case loop: (ok cs s2)
      from cell_state_loop [OF loop(1) [unfolded st] src]
      have s12: "stays numEG B s1 s2" and lcs: "length cs = length ?hs"
        and rel: "good s1 \<Longrightarrow> B \<Longrightarrow>
           list_all2 (mirrors_cell_state (device_from (next_free s1) s2) (host_heap s1) numEG) cs ?hs"
        by auto
      have s02: "stays numEG B s s2" by (rule stays_trans [OF s01 s12])
      have hh: "host_heap s1 = host_heap s" by (rule host_heap_ext [OF stays_ext [OF s01]])
      have len: "?n = int (length (map VCellState cs))" by (simp add: lcs)
      from loop(2) len show ?thesis
      proof (cases rule: alloc_copy_local [where N = numEG and B = B])
        case (fail e)
        with s02 show ?thesis by (auto intro: stays_trans)
      next
        case (ok p s3)
        from ok(3) have r: "r = Inr (?D p)" and s: "s' = s3" by auto
        have e23: "ext s2 s3" by (rule allocated_ext [OF ok(1)])
        have st3: "stays numEG B s s3"
        proof (rule stays_then_allocated [OF s02 ok(1)])
          assume B and g: "good s" and "host_leafy s"
          have g1: "good s1" by (rule stays_good [OF s01 g])
          have g2: "good s2" by (rule stays_good [OF s02 g])
          from \<open>host_leafy s\<close>
          have "\<And>c c0. mirrors_cell_state (device_from (next_free s1) s2) (host_heap s1) numEG c c0
              \<Longrightarrow> val_ok (device_from (next_free s1) s2) numEG (VCellState c)"
            unfolding hh by (rule mirrors_cell_state_ok [rotated])
          moreover have "device_from (next_free s1) s2 \<subseteq>\<^sub>m dev_heap s3"
            by (rule map_le_trans [OF device_from_dev_heap dev_heap_mono [OF g2 e23]])
          ultimately show "\<forall>v \<in> set (map VCellState cs). val_ok (dev_heap s3) numEG v"
            by (rule staged_val_ok [OF rel [OF g1 \<open>B\<close>]])
        qed
        have "holds (device_from (next_free s) s3) p ?n (map VCellState cs)"
          using ok(2) by (rule holds_mono)
             (rule device_from_anti, use stays_ext [OF s02] in \<open>simp add: ext_def\<close>)
        moreover have "list_all2 (mirrors_cell_state (device_from (next_free s) s3) (host_heap s) numEG) cs ?hs"
          if g: "good s" and B
        proof -
          have g1: "good s1" by (rule stays_good [OF s01 g])
          have g2: "good s2" by (rule stays_good [OF s02 g])
          show ?thesis
            using rel [OF g1 \<open>B\<close>] unfolding hh
            by (rule list_all2_mono)
               (rule mirrors_cell_state_mono [OF _ lift_heap [OF stays_ext [OF s01] g2 e23]])
        qed
        ultimately show ?thesis using st3 unfolding r s by blast
      qed
    qed
  qed
qed

lemma flat_copy:
  assumes run: "safeCall (malloc_device n) (\<lambda>p. safeCall (memcpy_from p xs n) (\<lambda>u. ret (f p))) s = (r, s')"
    and n: "n = int (length xs)"
    and leafs: "list_all leaf xs"
  shows "stays N B s s' \<and>
         (\<forall>x. r = Inr x \<longrightarrow> (\<exists>p. x = f p \<and> holds (device_from (next_free s) s') p n xs))"
  using run n
proof (cases rule: alloc_copy_local [where N = N and B = B])
  case (fail e)
  then show ?thesis by simp
next
  case (ok p s2)
  from ok(3) have r: "r = Inr (f p)" and s: "s' = s2" by auto
  have "stays N B s s2"
    using leafs by (intro stays_then_allocated [OF stays_refl ok(1)])
                   (auto simp: list_all_iff intro: leaf_val_ok)
  with ok(2) show ?thesis unfolding r s by auto
qed

lemma staged_array_copy:
  fixes R :: "('cs, 'v, 'fa, 'gp) heap \<Rightarrow> ('cs, 'v, 'fa, 'gp) heap \<Rightarrow> 'a \<Rightarrow> 'b \<Rightarrow> bool"
  assumes run: "safeCall (for_loop 0 n body st0)
                  (\<lambda>st. safeCall (malloc_device (int n))
                     (\<lambda>p. safeCall (memcpy_from p (map V st) (int n)) (\<lambda>u. ret (f p)))) s = (r, s')"
    and loop: "\<And>r s'. for_loop 0 n body st0 s = (r, s') \<Longrightarrow>
                 stays N B s s' \<and>
                 (\<forall>st. r = Inr st \<longrightarrow> length st = n \<and>
                    (good s \<longrightarrow> B \<longrightarrow> list_all2 (R (device_from (next_free s) s') (host_heap s)) st hs))"
    and okv: "\<And>h c c0. host_leafy s \<Longrightarrow> R h (host_heap s) c c0 \<Longrightarrow> val_ok h N (V c)"
    and mono: "\<And>h h' c c0. R h (host_heap s) c c0 \<Longrightarrow> h \<subseteq>\<^sub>m h' \<Longrightarrow> R h' (host_heap s) c c0"
  shows "stays N B s s' \<and>
         (\<forall>x. r = Inr x \<longrightarrow>
            (\<exists>p cs. x = f p \<and> holds (device_from (next_free s) s') p (int n) (map V cs)
                   \<and> (good s \<longrightarrow> B \<longrightarrow>
                         list_all2 (R (device_from (next_free s) s') (host_heap s)) cs hs)))"
  using run
proof (cases rule: safeCall_cases)
  case (fail e)
  with loop [OF fail(1)] show ?thesis by simp
next
  case lp: (ok cs s2)
  from loop [OF lp(1)]
  have s02: "stays N B s s2" and lcs: "length cs = n"
    and rel: "good s \<Longrightarrow> B \<Longrightarrow> list_all2 (R (device_from (next_free s) s2) (host_heap s)) cs hs"
    by auto
  have len: "int n = int (length (map V cs))" by (simp add: lcs)
  from lp(2) len show ?thesis
  proof (cases rule: alloc_copy_local [where N = N and B = B])
    case (fail e)
    with s02 show ?thesis by (auto intro: stays_trans)
  next
    case (ok p s3)
    from ok(3) have r: "r = Inr (f p)" and s: "s' = s3" by auto
    have e23: "ext s2 s3" by (rule allocated_ext [OF ok(1)])
    have st3: "stays N B s s3"
    proof (rule stays_then_allocated [OF s02 ok(1)])
      assume B and g: "good s" and lf: "host_leafy s"
      have g2: "good s2" by (rule stays_good [OF s02 g])
      have "\<And>c c0. R (device_from (next_free s) s2) (host_heap s) c c0
              \<Longrightarrow> val_ok (device_from (next_free s) s2) N (V c)"
        by (rule okv [OF lf])
      moreover have "device_from (next_free s) s2 \<subseteq>\<^sub>m dev_heap s3"
        by (rule map_le_trans [OF device_from_dev_heap dev_heap_mono [OF g2 e23]])
      ultimately show "\<forall>v \<in> set (map V cs). val_ok (dev_heap s3) N v"
        by (rule staged_val_ok [OF rel [OF g \<open>B\<close>]])
    qed
    have "holds (device_from (next_free s) s3) p (int n) (map V cs)"
      using ok(2) by (rule holds_mono)
         (rule device_from_anti, use stays_ext [OF s02] in \<open>simp add: ext_def\<close>)
    moreover have "list_all2 (R (device_from (next_free s) s3) (host_heap s)) cs hs"
      if g: "good s" and B
    proof -
      have g2: "good s2" by (rule stays_good [OF s02 g])
      show ?thesis
        using rel [OF g \<open>B\<close>]
        by (rule list_all2_mono) (rule mono [OF _ device_from_mono [OF g2 e23]])
    qed
    ultimately show ?thesis using st3 unfolding r s by blast
  qed
qed

lemma copy_nbrRank_spec:
  assumes run: "copy_nbrRank d D s = (r, s')"
  shows "stays N B s s' \<and>
    (\<forall>D'. r = Inr D' \<longrightarrow>
      (\<exists>p. D' = D\<lparr>mesh_d := (mesh_d D)\<lparr>nbrRankSize := int (length (nbrRank (mesh d))),
                                         nbrRank_d := p\<rparr>\<rparr>
         \<and> holds (device_from (next_free s) s') p (int (length (nbrRank (mesh d))))
              (map VInt (nbrRank (mesh d)))))"
proof -
  let ?n = "int (length (nbrRank (mesh d)))"
  from run have "safeCall (malloc_device ?n)
     (\<lambda>p. safeCall (memcpy_from p (map VInt (nbrRank (mesh d))) ?n)
        (\<lambda>u. ret (D\<lparr>mesh_d := (mesh_d D)\<lparr>nbrRankSize := ?n, nbrRank_d := p\<rparr>\<rparr>))) s = (r, s')"
    by (simp add: copy_nbrRank_def Let_def)
  then show ?thesis
    by (rule flat_copy) (simp_all add: list_all_iff)
qed

lemma copy_node_spec:
  assumes run: "copy_node d D s = (r, s')"
  shows "stays N B s s' \<and>
    (\<forall>D'. r = Inr D' \<longrightarrow>
      (\<exists>p. D' = D\<lparr>mesh_d := (mesh_d D)\<lparr>nodeSize := int (length (node (mesh d))),
                                         node_d := p\<rparr>\<rparr>
         \<and> holds (device_from (next_free s) s') p (int (length (node (mesh d))))
              (map VVector (node (mesh d)))))"
proof -
  let ?n = "int (length (node (mesh d)))"
  from run have "safeCall (malloc_device ?n)
     (\<lambda>p. safeCall (memcpy_from p (map VVector (node (mesh d))) ?n)
        (\<lambda>u. ret (D\<lparr>mesh_d := (mesh_d D)\<lparr>nodeSize := ?n, node_d := p\<rparr>\<rparr>))) s = (r, s')"
    by (simp add: copy_node_def Let_def)
  then show ?thesis
    by (rule flat_copy) (simp_all add: list_all_iff)
qed

lemma copy_cellConnectivity_spec:
  assumes run: "copy_cellConnectivity d D s = (r, s')"
    and src: "B \<Longrightarrow> \<forall>c \<in> set (cellConnectivity (mesh d)).
                src_ok (c_point c) (num_points c) \<and> src_ok (c_facet c) (num_facets c)"
  shows "stays N B s s' \<and>
    (\<forall>D'. r = Inr D' \<longrightarrow>
      (\<exists>p cs. D' = D\<lparr>mesh_d := (mesh_d D)\<lparr>cellConnectivitySize := int (length (cellConnectivity (mesh d))),
                                            cellConnectivity_d := p\<rparr>\<rparr>
         \<and> holds (device_from (next_free s) s') p (int (length (cellConnectivity (mesh d)))) (map VConn cs)
         \<and> (good s \<longrightarrow> B \<longrightarrow>
               list_all2 (mirrors_connectivity (device_from (next_free s) s') (host_heap s))
                 cs (cellConnectivity (mesh d)))))"
proof -
  let ?hs = "cellConnectivity (mesh d)"
  let ?n = "length ?hs"
  from run have "safeCall (for_loop 0 ?n (connectivity_body ?hs) (replicate ?n wild_connectivity))
     (\<lambda>st. safeCall (malloc_device (int ?n))
        (\<lambda>p. safeCall (memcpy_from p (map VConn st) (int ?n))
           (\<lambda>u. ret (D\<lparr>mesh_d := (mesh_d D)\<lparr>cellConnectivitySize := int ?n,
                                                cellConnectivity_d := p\<rparr>\<rparr>)))) s = (r, s')"
    by (simp add: copy_cellConnectivity_def Let_def)
  then show ?thesis
  proof (rule staged_array_copy [where R = mirrors_connectivity and B = B])
    fix r s'
    assume "for_loop 0 ?n (connectivity_body ?hs) (replicate ?n wild_connectivity) s = (r, s')"
    then show "stays N B s s' \<and>
       (\<forall>st. r = Inr st \<longrightarrow> length st = ?n \<and>
          (good s \<longrightarrow> B \<longrightarrow>
             list_all2 (mirrors_connectivity (device_from (next_free s) s') (host_heap s)) st ?hs))"
      by (rule connectivity_loop) (simp_all add: src)
  qed (auto intro: mirrors_connectivity_ok mirrors_connectivity_mono)
qed

lemma copy_cellGeometry_spec:
  assumes run: "copy_cellGeometry d D s = (r, s')"
    and src: "B \<Longrightarrow> \<forall>g \<in> set (cellGeometry (mesh d)). src_ok (g_facet g) (g_size g)"
  shows "stays N B s s' \<and>
    (\<forall>D'. r = Inr D' \<longrightarrow>
      (\<exists>p cs. D' = D\<lparr>mesh_d := (mesh_d D)\<lparr>cellGeometrySize := int (length (cellGeometry (mesh d))),
                                            cellGeometry_d := p\<rparr>\<rparr>
         \<and> holds (device_from (next_free s) s') p (int (length (cellGeometry (mesh d)))) (map VGeom cs)
         \<and> (good s \<longrightarrow> B \<longrightarrow>
               list_all2 (mirrors_geometry (device_from (next_free s) s') (host_heap s))
                 cs (cellGeometry (mesh d)))))"
proof -
  let ?hs = "cellGeometry (mesh d)"
  let ?n = "length ?hs"
  from run have "safeCall (for_loop 0 ?n (geometry_body ?hs) (replicate ?n wild_geometry))
     (\<lambda>st. safeCall (malloc_device (int ?n))
        (\<lambda>p. safeCall (memcpy_from p (map VGeom st) (int ?n))
           (\<lambda>u. ret (D\<lparr>mesh_d := (mesh_d D)\<lparr>cellGeometrySize := int ?n,
                                                cellGeometry_d := p\<rparr>\<rparr>)))) s = (r, s')"
    by (simp add: copy_cellGeometry_def Let_def)
  then show ?thesis
  proof (rule staged_array_copy [where R = mirrors_geometry and B = B])
    fix r s'
    assume "for_loop 0 ?n (geometry_body ?hs) (replicate ?n wild_geometry) s = (r, s')"
    then show "stays N B s s' \<and>
       (\<forall>st. r = Inr st \<longrightarrow> length st = ?n \<and>
          (good s \<longrightarrow> B \<longrightarrow>
             list_all2 (mirrors_geometry (device_from (next_free s) s') (host_heap s)) st ?hs))"
      by (rule geometry_loop) (simp_all add: src)
  qed (auto intro: mirrors_geometry_ok mirrors_geometry_mono)
qed

subsection \<open>One iteration, and the loop over the domains\<close>

lemma host_side_parts:
  assumes "host_side numEG d"
  shows "\<forall>c \<in> set (cell_state d). src_ok (total c) numEG"
    and "\<forall>c \<in> set (cellConnectivity (mesh d)).
           src_ok (c_point c) (num_points c) \<and> src_ok (c_facet c) (num_facets c)"
    and "\<forall>g \<in> set (cellGeometry (mesh d)). src_ok (g_facet g) (g_size g)"
  using assms by (simp_all add: host_side_def)

lemma domain_body_spec:
  assumes run: "domain_body numEG domain i domain_h s = (r, s')"
    and hs: "B \<Longrightarrow> host_side numEG (domain ! i)"
  shows "stays numEG B s s' \<and>
         (\<forall>dh'. r = Inr dh' \<longrightarrow>
            (\<exists>D. dh' = domain_h[i := D] \<and>
                 (good s \<longrightarrow> B \<longrightarrow> mirrors_domain (device_from (next_free s) s') (host_heap s) numEG
                               D (domain ! i))))"
proof -
  let ?d = "domain ! i"
  have src: "B \<Longrightarrow> \<forall>c \<in> set (cell_state ?d). src_ok (total c) numEG"
    "B \<Longrightarrow> \<forall>c \<in> set (cellConnectivity (mesh ?d)).
           src_ok (c_point c) (num_points c) \<and> src_ok (c_facet c) (num_facets c)"
    "B \<Longrightarrow> \<forall>g \<in> set (cellGeometry (mesh ?d)). src_ok (g_facet g) (g_size g)"
    using host_side_parts [OF hs] by blast+
  from run have run': "safeCall (copy_cell_state numEG ?d (domain_h ! i)) (\<lambda>D.
       safeCall (copy_nbrRank ?d D) (\<lambda>D.
         safeCall (copy_node ?d D) (\<lambda>D.
           safeCall (copy_cellConnectivity ?d D) (\<lambda>D.
             safeCall (copy_cellGeometry ?d D) (\<lambda>D.
               ret (domain_h[i := D])))))) s = (r, s')"
    by (simp add: domain_body_def)
  from run' show ?thesis
  proof (cases rule: safeCall_cases)
    case (fail e)
    with copy_cell_state_spec [OF fail(1) src(1), of B] show ?thesis by simp
  next
    case p1: (ok D1 s1)
    note f1 = copy_cell_state_spec [OF p1(1) src(1), of B]
    from f1 have t1: "stays numEG B s s1" by simp
    from p1(2) show ?thesis
    proof (cases rule: safeCall_cases)
      case (fail e)
      with copy_nbrRank_spec [OF fail(1), of numEG B] t1 show ?thesis
        by (auto intro: stays_trans)
    next
      case p2: (ok D2 s2)
      note f2 = copy_nbrRank_spec [OF p2(1), of numEG B]
      from f2 have t2: "stays numEG B s1 s2" by simp
      note a2 = stays_trans [OF t1 t2]
      from p2(2) show ?thesis
      proof (cases rule: safeCall_cases)
        case (fail e)
        with copy_node_spec [OF fail(1), of numEG B] a2 show ?thesis
          by (auto intro: stays_trans)
      next
        case p3: (ok D3 s3)
        note f3 = copy_node_spec [OF p3(1), of numEG B]
        from f3 have t3: "stays numEG B s2 s3" by simp
        note a3 = stays_trans [OF a2 t3]
        from p3(2) show ?thesis
        proof (cases rule: safeCall_cases)
          case (fail e)
          with copy_cellConnectivity_spec [OF fail(1) src(2), of B numEG] a3 show ?thesis
            by (auto intro: stays_trans)
        next
          case p4: (ok D4 s4)
          note f4 = copy_cellConnectivity_spec [OF p4(1) src(2), of B numEG]
          from f4 have t4: "stays numEG B s3 s4" by simp
          note a4 = stays_trans [OF a3 t4]
          from p4(2) show ?thesis
          proof (cases rule: safeCall_cases)
            case (fail e)
            with copy_cellGeometry_spec [OF fail(1) src(3), of B numEG] a4 show ?thesis
              by (auto intro: stays_trans)
          next
            case p5: (ok D5 s5)
            note f5 = copy_cellGeometry_spec [OF p5(1) src(3), of B numEG]
            from f5 have t5: "stays numEG B s4 s5" by simp
            note a5 = stays_trans [OF a4 t5]
            from p5(2) have r: "r = Inr (domain_h[i := D5])" and s: "s' = s5" by auto
            have "mirrors_domain (device_from (next_free s) s5) (host_heap s) numEG D5 ?d"
              if g: "good s" and B
            proof -
              let ?H = "device_from (next_free s) s5"
              have g1: "good s1" and g2: "good s2" and g3: "good s3" and g4: "good s4"
                and g5: "good s5"
                using g t1 a2 a3 a4 a5 by (auto intro: stays_good)
              have e1: "ext s s1" and e2: "ext s s2" and e3: "ext s s3" and e4: "ext s s4"
                using t1 a2 a3 a4 by (auto intro: stays_ext)
              have b4: "ext s4 s5" by (rule stays_ext [OF t5])
              have b3: "ext s3 s5" by (rule stays_ext [OF stays_trans [OF t4 t5]])
              have b2: "ext s2 s5" by (rule stays_ext [OF stays_trans [OF t3 stays_trans [OF t4 t5]]])
              have b1: "ext s1 s5"
                by (rule stays_ext [OF stays_trans [OF t2 stays_trans [OF t3 stays_trans [OF t4 t5]]]])
              have H1: "device_from (next_free s) s1 \<subseteq>\<^sub>m ?H" by (rule lift_heap [OF ext_refl g1 b1])
              have H2: "device_from (next_free s1) s2 \<subseteq>\<^sub>m ?H" by (rule lift_heap [OF e1 g2 b2])
              have H3: "device_from (next_free s2) s3 \<subseteq>\<^sub>m ?H" by (rule lift_heap [OF e2 g3 b3])
              have H4: "device_from (next_free s3) s4 \<subseteq>\<^sub>m ?H" by (rule lift_heap [OF e3 g4 b4])
              have H5: "device_from (next_free s4) s5 \<subseteq>\<^sub>m ?H" by (rule lift_heap [OF e4 g5 ext_refl])
              have hh3: "host_heap s3 = host_heap s" and hh4: "host_heap s4 = host_heap s"
                by (rule host_heap_ext [OF e3], rule host_heap_ext [OF e4])
              from f1 g \<open>B\<close> obtain p1 cs where
                D1: "D1 = (domain_h ! i)\<lparr>domainIndex_d := domainIndex ?d,
                        global_domain_d := global_domain ?d,
                        cell_stateSize := int (length (cell_state ?d)), cell_state_d := p1,
                        mesh_d := (mesh_d (domain_h ! i))\<lparr>domainGid_d := domainGid (mesh ?d)\<rparr>\<rparr>"
                and h1: "holds (device_from (next_free s) s1) p1 (int (length (cell_state ?d)))
                           (map VCellState cs)"
                and r1: "list_all2 (mirrors_cell_state (device_from (next_free s) s1) (host_heap s) numEG)
                           cs (cell_state ?d)"
                by blast
              from f2 obtain p2 where
                D2: "D2 = D1\<lparr>mesh_d := (mesh_d D1)\<lparr>nbrRankSize := int (length (nbrRank (mesh ?d))),
                                                    nbrRank_d := p2\<rparr>\<rparr>"
                and h2: "holds (device_from (next_free s1) s2) p2 (int (length (nbrRank (mesh ?d))))
                           (map VInt (nbrRank (mesh ?d)))"
                by blast
              from f3 obtain p3 where
                D3: "D3 = D2\<lparr>mesh_d := (mesh_d D2)\<lparr>nodeSize := int (length (node (mesh ?d))),
                                                    node_d := p3\<rparr>\<rparr>"
                and h3: "holds (device_from (next_free s2) s3) p3 (int (length (node (mesh ?d))))
                           (map VVector (node (mesh ?d)))"
                by blast
              from f4 g3 \<open>B\<close> obtain p4 cc where
                D4: "D4 = D3\<lparr>mesh_d := (mesh_d D3)\<lparr>cellConnectivitySize :=
                                                      int (length (cellConnectivity (mesh ?d))),
                                                    cellConnectivity_d := p4\<rparr>\<rparr>"
                and h4: "holds (device_from (next_free s3) s4) p4
                           (int (length (cellConnectivity (mesh ?d)))) (map VConn cc)"
                and r4: "list_all2 (mirrors_connectivity (device_from (next_free s3) s4) (host_heap s3))
                           cc (cellConnectivity (mesh ?d))"
                by blast
              from f5 g4 \<open>B\<close> obtain p5 cg where
                D5: "D5 = D4\<lparr>mesh_d := (mesh_d D4)\<lparr>cellGeometrySize :=
                                                      int (length (cellGeometry (mesh ?d))),
                                                    cellGeometry_d := p5\<rparr>\<rparr>"
                and h5: "holds (device_from (next_free s4) s5) p5
                           (int (length (cellGeometry (mesh ?d)))) (map VGeom cg)"
                and r5: "list_all2 (mirrors_geometry (device_from (next_free s4) s5) (host_heap s4))
                           cg (cellGeometry (mesh ?d))"
                by blast
              note k1 = holds_mono [OF h1 H1] and k2 = holds_mono [OF h2 H2]
                and k3 = holds_mono [OF h3 H3] and k4 = holds_mono [OF h4 H4]
                and k5 = holds_mono [OF h5 H5]
              have q1: "list_all2 (mirrors_cell_state ?H (host_heap s) numEG) cs (cell_state ?d)"
                using r1 by (rule list_all2_mono) (rule mirrors_cell_state_mono [OF _ H1])
              have q4: "list_all2 (mirrors_connectivity ?H (host_heap s)) cc (cellConnectivity (mesh ?d))"
                using r4 unfolding hh3 by (rule list_all2_mono) (rule mirrors_connectivity_mono [OF _ H4])
              have q5: "list_all2 (mirrors_geometry ?H (host_heap s)) cg (cellGeometry (mesh ?d))"
                using r5 unfolding hh4 by (rule list_all2_mono) (rule mirrors_geometry_mono [OF _ H5])
              have fields: "domainIndex_d D5 = domainIndex ?d" "global_domain_d D5 = global_domain ?d"
                "domainGid_d (mesh_d D5) = domainGid (mesh ?d)"
                "cell_stateSize D5 = int (length (cell_state ?d))" "cell_state_d D5 = p1"
                "nbrRankSize (mesh_d D5) = int (length (nbrRank (mesh ?d)))" "nbrRank_d (mesh_d D5) = p2"
                "nodeSize (mesh_d D5) = int (length (node (mesh ?d)))" "node_d (mesh_d D5) = p3"
                "cellConnectivitySize (mesh_d D5) = int (length (cellConnectivity (mesh ?d)))"
                "cellConnectivity_d (mesh_d D5) = p4"
                "cellGeometrySize (mesh_d D5) = int (length (cellGeometry (mesh ?d)))"
                "cellGeometry_d (mesh_d D5) = p5"
                by (simp_all add: D1 D2 D3 D4 D5)
              show ?thesis
                unfolding mirrors_domain_def fields
                using k1 k2 k3 k4 k5 q1 q4 q5 by blast
            qed
            with a5 show ?thesis unfolding r s by blast
          qed
        qed
      qed
    qed
  qed
qed

lemma domains_loop:
  assumes run: "for_loop 0 (length domain) (domain_body numEG domain) st0 s = (r, s')"
    and len: "length st0 = length domain"
    and hs: "B \<Longrightarrow> \<forall>d \<in> set domain. host_side numEG d"
  shows "stays numEG B s s' \<and>
         (\<forall>st. r = Inr st \<longrightarrow> length st = length domain \<and> (good s \<longrightarrow> B \<longrightarrow>
            list_all2 (mirrors_domain (device_from (next_free s) s') (host_heap s) numEG) st domain))"
proof -
  let ?M = "\<lambda>h hh D (x :: MC_Domain_d) k. B \<longrightarrow> mirrors_domain h hh numEG D (domain ! k)"
  have "stays numEG B s s' \<and>
        (\<forall>st. r = Inr st \<longrightarrow> length st = length domain \<and>
           (good s \<longrightarrow> (\<forall>i<length domain.
               ?M (device_from (next_free s) s') (host_heap s) (st ! i) (st0 ! i) i)))"
  proof (rule staging_loop [where M = ?M, OF run len])
    fix k st s r s1
    assume "k < length domain" "length st = length domain"
      "domain_body numEG domain k st s = (r, s1)"
    with hs show "stays numEG B s s1 \<and>
         (\<forall>st'. r = Inr st' \<longrightarrow>
            (\<exists>c. st' = st[k := c] \<and>
                 (good s \<longrightarrow> ?M (device_from (next_free s) s1) (host_heap s) c (st ! k) k)))"
      by (intro domain_body_spec) auto
  qed (auto intro: mirrors_domain_mono)
  then show ?thesis
    by (auto simp: list_all2_conv_all_nth)
qed

subsection \<open>The whole build\<close>

lemma copyDomainDevice_unfold:
  "copyDomainDevice numEG domain domain_d =
     safeCall (for_loop 0 (length domain) (domain_body numEG domain)
                 (replicate (length domain) wild_domain))
       (\<lambda>domain_h. safeCall (memcpy_from domain_d (map VDomain domain_h) (int (length domain)))
          (\<lambda>u. ret (int (length domain))))"
  by (simp add: copyDomainDevice_def Let_def)

lemma build_cases:
  assumes run: "copyDomainDevice numEG domain domain_d s = (r, s')"
    and B: "B \<longrightarrow> (\<forall>d \<in> set domain. host_side numEG d)"
  obtains (fail) e where "r = Inl e" "stays numEG B s s'"
        | (ok) Ds s1 where "r = Inr (int (length domain))" "stays numEG B s s1"
            "length Ds = length domain"
            "good s \<Longrightarrow> B \<Longrightarrow> list_all2 (mirrors_domain (device_from (next_free s) s1) (host_heap s) numEG) Ds domain"
            "copy_in domain_d (Some (map VDomain Ds)) (int (length domain)) s1 = (Inr (), s')"
proof -
  from run have run': "safeCall (for_loop 0 (length domain) (domain_body numEG domain)
                 (replicate (length domain) wild_domain))
       (\<lambda>domain_h. safeCall (memcpy_from domain_d (map VDomain domain_h) (int (length domain)))
          (\<lambda>u. ret (int (length domain)))) s = (r, s')"
    by (simp add: copyDomainDevice_unfold)
  from run' show ?thesis
  proof (cases rule: safeCall_cases)
    case (fail e)
    from domains_loop [OF fail(1) _ mp [OF B]] fail(2) show ?thesis by (auto intro: that(1))
  next
    case lp: (ok Ds s1)
    from domains_loop [OF lp(1) _ mp [OF B]]
    have s01: "stays numEG B s s1" and len: "length Ds = length domain"
      and rel: "good s \<Longrightarrow> B \<Longrightarrow>
        list_all2 (mirrors_domain (device_from (next_free s) s1) (host_heap s) numEG) Ds domain"
      by auto
    from lp(2) show ?thesis
    proof (cases rule: safeCall_cases)
      case (fail e)
      from fail(1) have "same_mem s1 s'"
        by (auto simp: memcpy_from_def elim!: copy_in_cases)
      with s01 have "stays numEG B s s'" by (auto intro: stays_trans same_mem_stays)
      with fail(2) show ?thesis by (auto intro: that(1))
    next
      case (ok u s2)
      from ok(2) have r: "r = Inr (int (length domain))" and s: "s' = s2" by auto
      from ok(1) len have "copy_in domain_d (Some (map VDomain Ds)) (int (length domain)) s1 = (Inr (), s')"
        by (simp add: memcpy_from_def s local_src_def)
      with r s01 len rel show ?thesis by (auto intro: that(2))
    qed
  qed
qed

text \<open>The last transfer, into the array the caller passed.\<close>

lemma final_copy:
  assumes cp: "copy_in domain_d (Some vs) (int (length vs)) s1 = (Inr (), s')"
    and g: "good s" and e: "ext s s1" and g1: "good s1"
    and dest: "valid_dest s domain_d (length vs)"
  shows "read_mem (dev_heap s') domain_d (int (length vs)) = Some vs"
    and "device_from (next_free s) s1 \<subseteq>\<^sub>m dev_heap s'"
    and "hmem s' = hmem s1"
proof -
  have "read_mem (dev_heap s') domain_d (int (length vs)) = Some vs
        \<and> device_from (next_free s) s1 \<subseteq>\<^sub>m dev_heap s' \<and> hmem s' = hmem s1"
    using cp
  proof (cases rule: copy_in_cases)
    case (fail e)
    then show ?thesis by simp
  next
    case zero
    then have "dev_heap s' = dev_heap s1"
      by (intro HOL.ext) (simp add: dev_heap_def same_mem_def split: ptr.splits)
    with zero device_from_dev_heap [of "next_free s" s1] show ?thesis
      by (simp add: read_mem_def same_mem_def)
  next
    case (ok ws buf)
    from ok(2) dest obtain a buf0 where d: "domain_d = DevP a" and b0: "dmem s a = Some buf0"
      by (auto simp: valid_dest_def split: ptr.splits option.splits)
    from b0 g have a: "a < next_free s"
      by (auto simp: good_def) (metis not_le_imp_less option.distinct(1))
    from ok(3) have ws: "ws = vs" by simp
    from ok(6) d have dm: "dmem s' = (dmem s1)(a \<mapsto> vs @ drop (length vs) buf)"
      and hm: "hmem s' = hmem s1"
      by (simp_all add: store_def logged_def ws)
    from dm d have "read_mem (dev_heap s') domain_d (int (length vs)) = Some vs"
      using ok(2) by (simp add: read_mem_def dev_heap_def)
    moreover from dm a have "device_from (next_free s) s1 \<subseteq>\<^sub>m dev_heap s'"
      by (auto simp: map_le_def device_from_def dev_heap_def dom_def split: ptr.splits if_splits)
    ultimately show ?thesis using hm by simp
  qed
  then show "read_mem (dev_heap s') domain_d (int (length vs)) = Some vs"
    and "device_from (next_free s) s1 \<subseteq>\<^sub>m dev_heap s'"
    and "hmem s' = hmem s1"
    by simp_all
qed

lemma build_mirrors:
  fixes s :: "('cs, 'v, 'fa, 'gp) machine"
  assumes run: "copyDomainDevice numEG domain domain_d s = (Inr n, s')"
    and hs: "\<forall>d \<in> set domain. host_side numEG d"
    and g: "good s"
    and dest: "valid_dest s domain_d (length domain)"
  shows "n = int (length domain) \<and>
         (\<exists>Ds. read_mem (dev_heap s') domain_d n = Some (map VDomain Ds)
               \<and> list_all2 (mirrors_domain (dev_heap s') (host_heap s) numEG) Ds domain)
         \<and> hmem s' = hmem s"
proof -
  have "True \<longrightarrow> (\<forall>d \<in> set domain. host_side numEG d)" using hs by simp
  with run show ?thesis
  proof (cases rule: build_cases)
  case (fail e)
  then show ?thesis by simp
next
  case (ok Ds s1)
  have len: "length (map VDomain Ds :: ('cs, 'v, 'fa, 'gp) val list) = length domain"
    by (simp add: ok(3))
  have cp: "copy_in domain_d (Some (map VDomain Ds :: ('cs, 'v, 'fa, 'gp) val list))
              (int (length (map VDomain Ds :: ('cs, 'v, 'fa, 'gp) val list))) s1 = (Inr (), s')"
    using ok(5) by (simp add: ok(3))
  note fc = final_copy [OF cp g stays_ext [OF ok(2)] stays_good [OF ok(2) g] dest [folded len]]
  from fc(1) have "read_mem (dev_heap s') domain_d (int (length domain)) = Some (map VDomain Ds)"
    by (simp add: ok(3))
  moreover have "list_all2 (mirrors_domain (dev_heap s') (host_heap s) numEG) Ds domain"
    using ok(4) [OF g TrueI] by (rule list_all2_mono) (rule mirrors_domain_mono [OF _ fc(2)])
  moreover from fc(3) stays_ext [OF ok(2)] have "hmem s' = hmem s" by (simp add: ext_def)
  ultimately show ?thesis using ok(1) by auto
  qed
qed

subsection \<open>From the mirror relation to what is read back\<close>

lemma those_map_Some:
  "those (map f xs) = Some ys \<longleftrightarrow> list_all2 (\<lambda>x y. f x = Some y) xs ys"
proof (induction xs arbitrary: ys)
  case Nil
  then show ?case by auto
next
  case (Cons x xs)
  then show ?case
    by (cases ys) (auto split: option.splits)
qed

lemma view_all_transfer:
  assumes "list_all2 R cs hs" "view_all f0 hs = Some xs"
    and "\<And>c c0 x. R c c0 \<Longrightarrow> f0 c0 = Some x \<Longrightarrow> f c = Some x"
  shows "view_all f cs = Some xs"
  using assms unfolding view_all_def those_map_Some
  by (auto simp: list_all2_conv_all_nth)

lemma view_all_defined:
  "view_all f xs = Some ys \<Longrightarrow> x \<in> set xs \<Longrightarrow> \<exists>y. f x = Some y"
  unfolding view_all_def those_map_Some
  by (auto simp: list_all2_conv_all_nth in_set_conv_nth)

lemma those_un_map:
  assumes "\<And>c. un (V c) = Some c"
  shows "those (map un (map V cs)) = Some cs"
  by (induction cs) (simp_all add: assms)

lemma read_as_holds:
  assumes "holds h p n (map V cs)" "\<And>c. un (V c) = Some c"
  shows "read_as un h p n = Some cs"
  using holds_read_mem [OF assms(1)] those_un_map [of un V cs, OF assms(2)]
  by (simp add: read_as_def)

lemma read_as_transfer:
  assumes "holds h p n vs" "read_mem hh q n = Some vs"
  shows "read_as un h p n = read_as un hh q n"
  using holds_read_mem [OF assms(1)] assms(2) by (simp add: read_as_def)

lemma view_cell_state_transfer:
  assumes "mirrors_cell_state h hh N c c0" "view_cell_state hh N c0 = Some x"
  shows "view_cell_state h N c = Some x"
proof -
  from assms(1) obtain vs where o: "cs_other c = cs_other c0"
    and p: "holds h (total c) N vs" "read_mem hh (total c0) N = Some vs"
    by (auto simp: mirrors_cell_state_def)
  from assms(2) show ?thesis
    by (simp add: view_cell_state_def o read_as_transfer [OF p] split: option.splits)
qed

lemma view_connectivity_transfer:
  assumes "mirrors_connectivity h hh c c0" "view_connectivity hh c0 = Some x"
  shows "view_connectivity h c = Some x"
proof -
  from assms(1) obtain vs ws where
    n: "num_points c = num_points c0" "num_facets c = num_facets c0"
    and p: "holds h (c_point c) (num_points c0) vs" "read_mem hh (c_point c0) (num_points c0) = Some vs"
    and f: "holds h (c_facet c) (num_facets c0) ws" "read_mem hh (c_facet c0) (num_facets c0) = Some ws"
    by (auto simp: mirrors_connectivity_def)
  from assms(2) show ?thesis
    by (simp add: view_connectivity_def n read_as_transfer [OF p] read_as_transfer [OF f]
             split: option.splits)
qed

lemma view_geometry_transfer:
  assumes "mirrors_geometry h hh g g0" "view_geometry hh g0 = Some x"
  shows "view_geometry h g = Some x"
proof -
  from assms(1) obtain vs where o: "g_size g = g_size g0"
    and p: "holds h (g_facet g) (g_size g0) vs" "read_mem hh (g_facet g0) (g_size g0) = Some vs"
    by (auto simp: mirrors_geometry_def)
  from assms(2) show ?thesis
    by (simp add: view_geometry_def o read_as_transfer [OF p] split: option.splits)
qed

lemma view_domain_transfer:
  assumes m: "mirrors_domain h hh N D d" and v: "view_domain hh N d = Some x"
  shows "view_domain_d h N D = Some x"
proof -
  from m obtain cs cc cg where
    sc: "domainIndex_d D = domainIndex d" "global_domain_d D = global_domain d"
        "domainGid_d (mesh_d D) = domainGid (mesh d)"
    and h1: "holds h (cell_state_d D) (cell_stateSize D) (map VCellState cs)"
    and r1: "list_all2 (mirrors_cell_state h hh N) cs (cell_state d)"
    and h2: "holds h (nbrRank_d (mesh_d D)) (nbrRankSize (mesh_d D)) (map VInt (nbrRank (mesh d)))"
    and h3: "holds h (node_d (mesh_d D)) (nodeSize (mesh_d D)) (map VVector (node (mesh d)))"
    and h4: "holds h (cellConnectivity_d (mesh_d D)) (cellConnectivitySize (mesh_d D)) (map VConn cc)"
    and r4: "list_all2 (mirrors_connectivity h hh) cc (cellConnectivity (mesh d))"
    and h5: "holds h (cellGeometry_d (mesh_d D)) (cellGeometrySize (mesh_d D)) (map VGeom cg)"
    and r5: "list_all2 (mirrors_geometry h hh) cg (cellGeometry (mesh d))"
    unfolding mirrors_domain_def by blast
  from v obtain xs xc xg where
    v1: "view_all (view_cell_state hh N) (cell_state d) = Some xs"
    and v4: "view_all (view_connectivity hh) (cellConnectivity (mesh d)) = Some xc"
    and v5: "view_all (view_geometry hh) (cellGeometry (mesh d)) = Some xg"
    and x: "x = \<lparr>v_domainIndex = domainIndex d, v_global_domain = global_domain d,
                v_cell_state = xs, v_domainGid = domainGid (mesh d),
                v_nbrRank = nbrRank (mesh d), v_node = node (mesh d),
                v_cellConnectivity = xc, v_cellGeometry = xg\<rparr>"
    by (auto simp: view_domain_def split: option.splits)
  have a1: "read_as un_cell_state h (cell_state_d D) (cell_stateSize D) = Some cs"
    by (rule read_as_holds [OF h1]) simp
  have a2: "read_as un_int h (nbrRank_d (mesh_d D)) (nbrRankSize (mesh_d D)) = Some (nbrRank (mesh d))"
    by (rule read_as_holds [OF h2]) simp
  have a3: "read_as un_vector h (node_d (mesh_d D)) (nodeSize (mesh_d D)) = Some (node (mesh d))"
    by (rule read_as_holds [OF h3]) simp
  have a4: "read_as un_conn h (cellConnectivity_d (mesh_d D)) (cellConnectivitySize (mesh_d D)) = Some cc"
    by (rule read_as_holds [OF h4]) simp
  have a5: "read_as un_geom h (cellGeometry_d (mesh_d D)) (cellGeometrySize (mesh_d D)) = Some cg"
    by (rule read_as_holds [OF h5]) simp
  have w1: "view_all (view_cell_state h N) cs = Some xs"
    by (rule view_all_transfer [OF r1 v1]) (rule view_cell_state_transfer)
  have w4: "view_all (view_connectivity h) cc = Some xc"
    by (rule view_all_transfer [OF r4 v4]) (rule view_connectivity_transfer)
  have w5: "view_all (view_geometry h) cg = Some xg"
    by (rule view_all_transfer [OF r5 v5]) (rule view_geometry_transfer)
  show ?thesis
    by (simp add: view_domain_d_def a1 a2 a3 a4 a5 w1 w4 w5 x sc)
qed

lemma view_mirror_transfer:
  assumes "read_mem h p n = Some (map VDomain Ds)"
    and "list_all2 (mirrors_domain h hh N) Ds domain"
    and "view_host hh N domain = Some vs"
  shows "view_mirror h N p n = Some vs"
proof -
  have "read_as un_domain h p n = Some Ds"
    using assms(1) those_un_map [of un_domain VDomain Ds] by (simp add: read_as_def)
  moreover have "view_all (view_domain_d h N) Ds = Some vs"
    using assms(2,3) unfolding view_host_def
    by (rule view_all_transfer) (rule view_domain_transfer)
  ultimately show ?thesis by (simp add: view_mirror_def)
qed

lemma host_read_src_ok: "read_as un (host_heap s) q n = Some xs \<Longrightarrow> src_ok q n"
  by (cases q) (auto simp: read_as_def read_mem_def src_ok_def is_dev_def host_heap_def
                     split: option.splits if_splits)

lemma view_domain_host_side:
  assumes "view_domain (host_heap s) N d = Some x"
  shows "host_side N d"
proof -
  from assms obtain xs xc xg where
    v1: "view_all (view_cell_state (host_heap s) N) (cell_state d) = Some xs"
    and v4: "view_all (view_connectivity (host_heap s)) (cellConnectivity (mesh d)) = Some xc"
    and v5: "view_all (view_geometry (host_heap s)) (cellGeometry (mesh d)) = Some xg"
    by (auto simp: view_domain_def split: option.splits)
  have "src_ok (total c) N" if "c \<in> set (cell_state d)" for c
    using view_all_defined [OF v1 that]
    by (auto simp: view_cell_state_def split: option.splits dest: host_read_src_ok)
  moreover have "src_ok (c_point c) (num_points c) \<and> src_ok (c_facet c) (num_facets c)"
    if "c \<in> set (cellConnectivity (mesh d))" for c
    using view_all_defined [OF v4 that]
    by (auto simp: view_connectivity_def split: option.splits dest: host_read_src_ok)
  moreover have "src_ok (g_facet g) (g_size g)" if "g \<in> set (cellGeometry (mesh d))" for g
    using view_all_defined [OF v5 that]
    by (auto simp: view_geometry_def split: option.splits dest: host_read_src_ok)
  ultimately show ?thesis by (simp add: host_side_def)
qed

lemma view_host_side:
  assumes "view_host (host_heap s) N domain = Some vs"
  shows "\<forall>d \<in> set domain. host_side N d"
  using view_all_defined [OF assms [unfolded view_host_def]]
  by (auto dest: view_domain_host_side)

lemma build_round_trip:
  fixes s :: "('cs, 'v, 'fa, 'gp) machine"
  assumes "good s" "valid_dest s domain_d (length domain)"
    and "view_host (host_heap s) numEG domain = Some vs"
    and "copyDomainDevice numEG domain domain_d s = (Inr n, s')"
  shows "view_mirror (dev_heap s') numEG domain_d n = Some vs"
proof -
  from build_mirrors [OF assms(4) view_host_side [OF assms(3)] assms(1,2)]
  obtain Ds where "read_mem (dev_heap s') domain_d n = Some (map VDomain Ds)"
    and "list_all2 (mirrors_domain (dev_heap s') (host_heap s) numEG) Ds domain"
    by blast
  then show ?thesis using assms(3) by (rule view_mirror_transfer)
qed

subsection \<open>A build on a runtime without failures completes\<close>

lemma host_heap_le: "hmem s1 = hmem s \<Longrightarrow> host_heap s \<subseteq>\<^sub>m heap_of s1"
  by (auto simp: map_le_def host_heap_def heap_of_def dom_def split: ptr.splits)

lemma malloc_device_runs:
  assumes "no_faults s" "0 \<le> n"
  shows "\<exists>p s1. malloc_device n s = (Inr p, s1) \<and> allocated s p (replicate (nat n) VUninit) s1
               \<and> no_faults s1"
  using assms
  by (auto simp: malloc_device_def faulty_def no_faults_def allocated_def logged_def)

lemma copy_in_runs:
  assumes nf: "no_faults s1" and n: "0 \<le> n"
    and src: "0 < n \<Longrightarrow> src = Some vs"
    and dst: "0 < n \<Longrightarrow> \<exists>buf. heap_of s1 dst = Some buf \<and> nat n \<le> length buf \<and> \<not> is_host dst"
  shows "\<exists>s2. copy_in dst src n s1 = (Inr (), s2) \<and> hmem s2 = hmem s1 \<and> no_faults s2"
proof (cases "n = 0")
  case True
  with nf show ?thesis
    by (auto simp: copy_in_def faulty_def no_faults_def logged_def)
next
  case False
  with n have pos: "0 < n" by simp
  from dst [OF pos] obtain buf where b: "heap_of s1 dst = Some buf" "nat n \<le> length buf"
    and h: "\<not> is_host dst" by blast
  have "hmem (store dst x s1) = hmem s1" "fails (store dst x s1) = fails s1" for x
    using h by (cases dst; simp add: store_def is_host_def)+
  with nf pos b src [OF pos] show ?thesis
    by (auto simp: copy_in_def faulty_def no_faults_def logged_def)
qed

lemma alloc_copy_runs:
  assumes nf: "no_faults s" and n: "0 \<le> n"
    and src: "\<And>s1. hmem s1 = hmem s \<Longrightarrow> src s1 = Some vs"
  shows "\<exists>p s2. safeCall (malloc_device n) (\<lambda>p. safeCall (\<lambda>s. copy_in p (src s) n s) (\<lambda>u. k p)) s
                = k p s2 \<and> hmem s2 = hmem s \<and> no_faults s2"
proof -
  from malloc_device_runs [OF nf n] obtain p s1 where
    m: "malloc_device n s = (Inr p, s1)" and al: "allocated s p (replicate (nat n) VUninit) s1"
    and nf1: "no_faults s1"
    by blast
  from al have h1: "hmem s1 = hmem s" by (simp add: allocated_def)
  have dst: "\<exists>buf. heap_of s1 p = Some buf \<and> nat n \<le> length buf \<and> \<not> is_host p" if "0 < n"
    using al that by (cases p) (auto simp: allocated_def heap_of_def is_host_def)
  from copy_in_runs [OF nf1 n src [OF h1] dst] obtain s2 where
    c: "copy_in p (src s1) n s1 = (Inr (), s2)" and h2: "hmem s2 = hmem s1" and nf2: "no_faults s2"
    by blast
  from m c have "safeCall (malloc_device n) (\<lambda>p. safeCall (\<lambda>s. copy_in p (src s) n s) (\<lambda>u. k p)) s
                 = k p s2"
    by (simp add: safeCall_def)
  with h1 h2 nf2 show ?thesis by auto
qed

lemma alloc_copy_host_runs:
  assumes nf: "no_faults s" and n: "0 \<le> n"
    and rd: "read_mem (host_heap s) q n = Some vs"
  shows "\<exists>p s2. safeCall (malloc_device n) (\<lambda>p. safeCall (memcpy p q n) (\<lambda>u. k p)) s = k p s2
               \<and> hmem s2 = hmem s \<and> no_faults s2"
  unfolding memcpy_as_copy_in
  by (rule alloc_copy_runs [OF nf n]) (rule read_mem_mono [OF rd host_heap_le])

lemma alloc_copy_local_runs:
  assumes nf: "no_faults s" and n: "n = int (length xs)"
  shows "\<exists>p s2. safeCall (malloc_device n) (\<lambda>p. safeCall (memcpy_from p xs n) (\<lambda>u. k p)) s = k p s2
               \<and> hmem s2 = hmem s \<and> no_faults s2"
  unfolding memcpy_from_as_copy_in
  by (rule alloc_copy_runs [OF nf, where vs = xs]) (simp_all add: n)

lemma for_loop_runs:
  assumes "I j a s" "j \<le> n"
    and step: "\<And>k a s. k < n \<Longrightarrow> I k a s \<Longrightarrow> \<exists>a' s'. body k a s = (Inr a', s') \<and> I (Suc k) a' s'"
  shows "\<exists>a' s'. for_loop j n body a s = (Inr a', s') \<and> I n a' s'"
  using assms(1,2)
proof (induction "n - j" arbitrary: j a s)
  case 0
  then show ?case by (auto simp: for_loop_stop)
next
  case (Suc d)
  then have lt: "j < n" by simp
  from step [OF lt Suc.prems(1)] obtain a1 s1 where
    b: "body j a s = (Inr a1, s1)" and I1: "I (Suc j) a1 s1" by blast
  have "d = n - Suc j" using Suc.hyps(2) by simp
  from Suc.hyps(1) [OF this I1] lt obtain a' s' where
    "for_loop (Suc j) n body a1 s1 = (Inr a', s')" "I n a' s'" by auto
  with b lt show ?case by (auto simp: for_loop_step safeCall_def)
qed

lemma cell_state_body_runs:
  assumes "no_faults s" "j < length st" "0 \<le> numEG"
    and "read_mem (host_heap s) (total (hs ! j)) numEG = Some vs"
  shows "\<exists>st' s'. cell_state_body numEG hs j st s = (Inr st', s') \<and> length st' = length st
                 \<and> hmem s' = hmem s \<and> no_faults s'"
proof -
  from alloc_copy_host_runs [OF assms(1,3,4),
      where k = "\<lambda>p. ret (upd j (\<lambda>c. c\<lparr>total := p\<rparr>) st)"]
  show ?thesis using assms(2) by (auto simp: cell_state_body_def Let_def)
qed

lemma connectivity_body_runs:
  assumes nf: "no_faults s" and j: "j < length st"
    and n: "0 \<le> num_points (hs ! j)" "0 \<le> num_facets (hs ! j)"
    and rd: "read_mem (host_heap s) (c_point (hs ! j)) (num_points (hs ! j)) = Some vs"
            "read_mem (host_heap s) (c_facet (hs ! j)) (num_facets (hs ! j)) = Some ws"
  shows "\<exists>st' s'. connectivity_body hs j st s = (Inr st', s') \<and> length st' = length st
                 \<and> hmem s' = hmem s \<and> no_faults s'"
proof -
  let ?n1 = "num_points (hs ! j)" and ?n2 = "num_facets (hs ! j)"
  let ?c = "\<lambda>p q. (st ! j)\<lparr>num_points := ?n1, num_facets := ?n2, c_point := p, c_facet := q\<rparr>"
  let ?k2 = "\<lambda>p q. ret (st[j := ?c p q])"
  let ?k1 = "\<lambda>p. safeCall (malloc_device ?n2)
                 (\<lambda>q. safeCall (memcpy q (c_facet (hs ! j)) ?n2) (\<lambda>u. ?k2 p q))"
  have unf: "connectivity_body hs j st = safeCall (malloc_device ?n1)
      (\<lambda>p. safeCall (memcpy p (c_point (hs ! j)) ?n1) (\<lambda>u. ?k1 p))"
    using j by (simp add: connectivity_body_def Let_def upd_def)
  from alloc_copy_host_runs [OF nf n(1) rd(1), where k = ?k1] obtain p s2 where
    a: "safeCall (malloc_device ?n1)
          (\<lambda>p. safeCall (memcpy p (c_point (hs ! j)) ?n1) (\<lambda>u. ?k1 p)) s = ?k1 p s2"
    and h2: "hmem s2 = hmem s" and nf2: "no_faults s2"
    by blast
  have rd2: "read_mem (host_heap s2) (c_facet (hs ! j)) ?n2 = Some ws"
    using rd(2) h2 by (simp add: host_heap_def [abs_def])
  from alloc_copy_host_runs [OF nf2 n(2) rd2, where k = "?k2 p"] obtain q s3 where
    b: "?k1 p s2 = ?k2 p q s3" and h3: "hmem s3 = hmem s2" and nf3: "no_faults s3"
    by blast
  from a b have "connectivity_body hs j st s = (Inr (st[j := ?c p q]), s3)"
    by (simp add: unf)
  with h2 h3 nf3 show ?thesis by auto
qed

lemma geometry_body_runs:
  assumes "no_faults s" "j < length st" "0 \<le> g_size (hs ! j)"
    and "read_mem (host_heap s) (g_facet (hs ! j)) (g_size (hs ! j)) = Some vs"
  shows "\<exists>st' s'. geometry_body hs j st s = (Inr st', s') \<and> length st' = length st
                 \<and> hmem s' = hmem s \<and> no_faults s'"
proof -
  from alloc_copy_host_runs [OF assms(1,3,4),
      where k = "\<lambda>p. ret (st[j := (st ! j)\<lparr>g_size := g_size (hs ! j), g_facet := p\<rparr>])"]
  show ?thesis using assms(2) by (auto simp: geometry_body_def Let_def upd_def)
qed

lemma host_heap_cong: "hmem s1 = hmem s \<Longrightarrow> host_heap s1 = host_heap s"
  by (intro HOL.ext) (simp add: host_heap_def split: ptr.splits)

lemma cell_state_loop_runs:
  fixes s :: "('cs, 'v, 'fa, 'gp) machine" and hs :: "'cs MC_Cell_State list"
  assumes nf: "no_faults s" and len: "length st0 = length hs"
    and n: "hs \<noteq> [] \<longrightarrow> 0 \<le> numEG"
    and rd: "\<forall>c \<in> set hs. \<exists>vs. read_mem (host_heap s) (total c) numEG = Some vs"
  shows "\<exists>st s1. for_loop 0 (length hs) (cell_state_body numEG hs) st0 s = (Inr st, s1)
               \<and> length st = length hs \<and> hmem s1 = hmem s \<and> no_faults s1"
proof -
  let ?I = "\<lambda>(k :: nat) st s1. length st = length hs \<and> hmem s1 = hmem s \<and> no_faults s1"
  have "\<exists>st s1. for_loop 0 (length hs) (cell_state_body numEG hs) st0 s = (Inr st, s1) \<and> ?I (length hs) st s1"
  proof (rule for_loop_runs [where I = ?I])
    fix k and st :: "'cs MC_Cell_State list" and s1 :: "('cs, 'v, 'fa, 'gp) machine"
    assume k: "k < length hs" and I: "?I k st s1"
    from k n have n0: "0 \<le> numEG" by auto
    from rd nth_mem [OF k] obtain vs where
      "read_mem (host_heap s) (total (hs ! k)) numEG = Some vs"
      by blast
    moreover from I have "host_heap s1 = host_heap s" by (intro host_heap_cong) simp
    ultimately have r: "read_mem (host_heap s1) (total (hs ! k)) numEG = Some vs"
      by simp
    from I k have kk: "k < length st" and nf1: "no_faults s1" by simp_all
    from cell_state_body_runs [OF nf1 kk n0 r] obtain a' s' where
      "cell_state_body numEG hs k st s1 = (Inr a', s')" "length a' = length st"
      "hmem s' = hmem s1" "no_faults s'"
      by blast
    with I show "\<exists>a' s'. cell_state_body numEG hs k st s1 = (Inr a', s') \<and> ?I (Suc k) a' s'"
      by (intro exI [of _ a'] exI [of _ s']) simp
  next
    show "?I 0 st0 s" using len nf by simp
  qed simp
  then show ?thesis by simp
qed

lemma connectivity_loop_runs:
  fixes s :: "('cs, 'v, 'fa, 'gp) machine" and hs :: "MC_Facet_Adjacency_Cell list"
  assumes nf: "no_faults s" and len: "length st0 = length hs"
    and n: "\<forall>c \<in> set hs. 0 \<le> num_points c \<and> 0 \<le> num_facets c"
    and rd: "\<forall>c \<in> set hs. (\<exists>vs. read_mem (host_heap s) (c_point c) (num_points c) = Some vs)
                         \<and> (\<exists>vs. read_mem (host_heap s) (c_facet c) (num_facets c) = Some vs)"
  shows "\<exists>st s1. for_loop 0 (length hs) (connectivity_body hs) st0 s = (Inr st, s1)
               \<and> length st = length hs \<and> hmem s1 = hmem s \<and> no_faults s1"
proof -
  let ?I = "\<lambda>(k :: nat) st s1. length st = length hs \<and> hmem s1 = hmem s \<and> no_faults s1"
  have "\<exists>st s1. for_loop 0 (length hs) (connectivity_body hs) st0 s = (Inr st, s1) \<and> ?I (length hs) st s1"
  proof (rule for_loop_runs [where I = ?I])
    fix k and st :: "MC_Facet_Adjacency_Cell list" and s1 :: "('cs, 'v, 'fa, 'gp) machine"
    assume k: "k < length hs" and I: "?I k st s1"
    from k n have n0: "0 \<le> num_points (hs ! k)" "0 \<le> num_facets (hs ! k)" by auto
    from rd nth_mem [OF k] obtain vs ws where
      "read_mem (host_heap s) (c_point (hs ! k)) (num_points (hs ! k)) = Some vs"
      "read_mem (host_heap s) (c_facet (hs ! k)) (num_facets (hs ! k)) = Some ws"
      by blast
    moreover from I have "host_heap s1 = host_heap s" by (intro host_heap_cong) simp
    ultimately have r: "read_mem (host_heap s1) (c_point (hs ! k)) (num_points (hs ! k)) = Some vs"
      "read_mem (host_heap s1) (c_facet (hs ! k)) (num_facets (hs ! k)) = Some ws"
      by simp_all
    from I k have kk: "k < length st" and nf1: "no_faults s1" by simp_all
    from connectivity_body_runs [OF nf1 kk n0 r] obtain a' s' where
      "connectivity_body hs k st s1 = (Inr a', s')" "length a' = length st"
      "hmem s' = hmem s1" "no_faults s'"
      by blast
    with I show "\<exists>a' s'. connectivity_body hs k st s1 = (Inr a', s') \<and> ?I (Suc k) a' s'"
      by (intro exI [of _ a'] exI [of _ s']) simp
  next
    show "?I 0 st0 s" using len nf by simp
  qed simp
  then show ?thesis by simp
qed

lemma geometry_loop_runs:
  fixes s :: "('cs, 'v, 'fa, 'gp) machine" and hs :: "MC_Facet_Geometry_Cell list"
  assumes nf: "no_faults s" and len: "length st0 = length hs"
    and n: "\<forall>g \<in> set hs. 0 \<le> g_size g"
    and rd: "\<forall>g \<in> set hs. \<exists>vs. read_mem (host_heap s) (g_facet g) (g_size g) = Some vs"
  shows "\<exists>st s1. for_loop 0 (length hs) (geometry_body hs) st0 s = (Inr st, s1)
               \<and> length st = length hs \<and> hmem s1 = hmem s \<and> no_faults s1"
proof -
  let ?I = "\<lambda>(k :: nat) st s1. length st = length hs \<and> hmem s1 = hmem s \<and> no_faults s1"
  have "\<exists>st s1. for_loop 0 (length hs) (geometry_body hs) st0 s = (Inr st, s1) \<and> ?I (length hs) st s1"
  proof (rule for_loop_runs [where I = ?I])
    fix k and st :: "MC_Facet_Geometry_Cell list" and s1 :: "('cs, 'v, 'fa, 'gp) machine"
    assume k: "k < length hs" and I: "?I k st s1"
    from k n have n0: "0 \<le> g_size (hs ! k)" by auto
    from rd nth_mem [OF k] obtain vs where
      "read_mem (host_heap s) (g_facet (hs ! k)) (g_size (hs ! k)) = Some vs"
      by blast
    moreover from I have "host_heap s1 = host_heap s" by (intro host_heap_cong) simp
    ultimately have r: "read_mem (host_heap s1) (g_facet (hs ! k)) (g_size (hs ! k)) = Some vs"
      by simp
    from I k have kk: "k < length st" and nf1: "no_faults s1" by simp_all
    from geometry_body_runs [OF nf1 kk n0 r] obtain a' s' where
      "geometry_body hs k st s1 = (Inr a', s')" "length a' = length st"
      "hmem s' = hmem s1" "no_faults s'"
      by blast
    with I show "\<exists>a' s'. geometry_body hs k st s1 = (Inr a', s') \<and> ?I (Suc k) a' s'"
      by (intro exI [of _ a'] exI [of _ s']) simp
  next
    show "?I 0 st0 s" using len nf by simp
  qed simp
  then show ?thesis by simp
qed

lemma flat_copy_runs:
  assumes "no_faults s" "n = int (length xs)"
  shows "\<exists>x s'. safeCall (malloc_device n) (\<lambda>p. safeCall (memcpy_from p xs n) (\<lambda>u. ret (f p))) s
                = (Inr x, s') \<and> hmem s' = hmem s \<and> no_faults s'"
  using alloc_copy_local_runs [OF assms, where k = "\<lambda>p. ret (f p)"] by (auto simp: ret_def)

lemma staged_array_copy_runs:
  assumes "\<exists>st s1. for_loop 0 n body st0 s = (Inr st, s1) \<and> length st = n
                  \<and> hmem s1 = hmem s \<and> no_faults s1"
  shows "\<exists>x s'. safeCall (for_loop 0 n body st0)
                  (\<lambda>st. safeCall (malloc_device (int n))
                     (\<lambda>p. safeCall (memcpy_from p (map V st) (int n)) (\<lambda>u. ret (f p)))) s
                = (Inr x, s') \<and> hmem s' = hmem s \<and> no_faults s'"
proof -
  from assms obtain st s1 where l: "for_loop 0 n body st0 s = (Inr st, s1)"
    and len: "length st = n" and h1: "hmem s1 = hmem s" and nf1: "no_faults s1"
    by blast
  have "int n = int (length (map V st))" by (simp add: len)
  from flat_copy_runs [OF nf1 this, where f = f] obtain x s' where
    "safeCall (malloc_device (int n))
       (\<lambda>p. safeCall (memcpy_from p (map V st) (int n)) (\<lambda>u. ret (f p))) s1 = (Inr x, s')"
    "hmem s' = hmem s1" "no_faults s'"
    by blast
  with l h1 show ?thesis by (auto simp: safeCall_def)
qed

lemma memcpy_stage_runs:
  assumes "no_faults s"
  shows "memcpy_stage xs (int (length xs)) s = (Inr xs, logged True s)"
  using assms by (simp add: memcpy_stage_def faulty_def no_faults_def)

lemma logged_keeps [simp]: "hmem (logged ok s) = hmem s" "no_faults (logged ok s) = no_faults s"
  by (simp_all add: logged_def no_faults_def)

lemma copy_cell_state_runs:
  assumes nf: "no_faults s" and n: "cell_state d \<noteq> [] \<longrightarrow> 0 \<le> numEG"
    and rd: "\<forall>c \<in> set (cell_state d). \<exists>vs. read_mem (host_heap s) (total c) numEG = Some vs"
  shows "\<exists>D' s'. copy_cell_state numEG d D s = (Inr D', s') \<and> hmem s' = hmem s \<and> no_faults s'"
proof -
  let ?hs = "cell_state d"
  let ?n = "int (length ?hs)"
  let ?D = "\<lambda>p. D\<lparr>domainIndex_d := domainIndex d, global_domain_d := global_domain d,
                   cell_stateSize := ?n, cell_state_d := p,
                   mesh_d := (mesh_d D)\<lparr>domainGid_d := domainGid (mesh d)\<rparr>\<rparr>"
  have unf: "copy_cell_state numEG d D = safeCall (memcpy_stage ?hs ?n)
     (\<lambda>st. safeCall (for_loop 0 (length ?hs) (cell_state_body numEG ?hs) st)
        (\<lambda>st. safeCall (malloc_device ?n)
           (\<lambda>p. safeCall (memcpy_from p (map VCellState st) ?n) (\<lambda>u. ret (?D p)))))"
    by (simp add: copy_cell_state_def Let_def)
  let ?s1 = "logged True s"
  have rd1: "\<forall>c \<in> set ?hs. \<exists>vs. read_mem (host_heap ?s1) (total c) numEG = Some vs"
    using rd host_heap_cong [of ?s1 s] by simp
  have "\<exists>st s2. for_loop 0 (length ?hs) (cell_state_body numEG ?hs) ?hs ?s1 = (Inr st, s2)
               \<and> length st = length ?hs \<and> hmem s2 = hmem ?s1 \<and> no_faults s2"
    by (rule cell_state_loop_runs [OF _ refl n rd1]) (simp add: nf)
  from staged_array_copy_runs [OF this, where V = VCellState and f = ?D] obtain x s' where
    "safeCall (for_loop 0 (length ?hs) (cell_state_body numEG ?hs) ?hs)
        (\<lambda>st. safeCall (malloc_device ?n)
           (\<lambda>p. safeCall (memcpy_from p (map VCellState st) ?n) (\<lambda>u. ret (?D p)))) ?s1 = (Inr x, s')"
    "hmem s' = hmem ?s1" "no_faults s'"
    by blast
  moreover have "copy_cell_state numEG d D s =
      safeCall (for_loop 0 (length ?hs) (cell_state_body numEG ?hs) ?hs)
        (\<lambda>st. safeCall (malloc_device ?n)
           (\<lambda>p. safeCall (memcpy_from p (map VCellState st) ?n) (\<lambda>u. ret (?D p)))) ?s1"
    unfolding unf by (subst safeCall_def) (simp only: memcpy_stage_runs [OF nf] prod.case sum.case)
  ultimately show ?thesis by (simp only: logged_keeps) blast
qed

lemma copy_nbrRank_runs:
  assumes "no_faults s"
  shows "\<exists>D' s'. copy_nbrRank d D s = (Inr D', s') \<and> hmem s' = hmem s \<and> no_faults s'"
proof -
  let ?n = "int (length (nbrRank (mesh d)))"
  have unf: "copy_nbrRank d D = safeCall (malloc_device ?n)
     (\<lambda>p. safeCall (memcpy_from p (map VInt (nbrRank (mesh d))) ?n)
        (\<lambda>u. ret (D\<lparr>mesh_d := (mesh_d D)\<lparr>nbrRankSize := ?n, nbrRank_d := p\<rparr>\<rparr>)))"
    by (simp add: copy_nbrRank_def Let_def)
  show ?thesis
    unfolding unf by (rule flat_copy_runs [OF assms]) simp
qed

lemma copy_node_runs:
  assumes "no_faults s"
  shows "\<exists>D' s'. copy_node d D s = (Inr D', s') \<and> hmem s' = hmem s \<and> no_faults s'"
proof -
  let ?n = "int (length (node (mesh d)))"
  have unf: "copy_node d D = safeCall (malloc_device ?n)
     (\<lambda>p. safeCall (memcpy_from p (map VVector (node (mesh d))) ?n)
        (\<lambda>u. ret (D\<lparr>mesh_d := (mesh_d D)\<lparr>nodeSize := ?n, node_d := p\<rparr>\<rparr>)))"
    by (simp add: copy_node_def Let_def)
  show ?thesis
    unfolding unf by (rule flat_copy_runs [OF assms]) simp
qed

lemma copy_cellConnectivity_runs:
  assumes nf: "no_faults s"
    and n: "\<forall>c \<in> set (cellConnectivity (mesh d)). 0 \<le> num_points c \<and> 0 \<le> num_facets c"
    and rd: "\<forall>c \<in> set (cellConnectivity (mesh d)).
               (\<exists>vs. read_mem (host_heap s) (c_point c) (num_points c) = Some vs)
               \<and> (\<exists>vs. read_mem (host_heap s) (c_facet c) (num_facets c) = Some vs)"
  shows "\<exists>D' s'. copy_cellConnectivity d D s = (Inr D', s') \<and> hmem s' = hmem s \<and> no_faults s'"
proof -
  let ?hs = "cellConnectivity (mesh d)"
  let ?n = "length ?hs"
  let ?f = "\<lambda>p. D\<lparr>mesh_d := (mesh_d D)\<lparr>cellConnectivitySize := int ?n, cellConnectivity_d := p\<rparr>\<rparr>"
  have unf: "copy_cellConnectivity d D =
     safeCall (for_loop 0 ?n (connectivity_body ?hs) (replicate ?n wild_connectivity))
       (\<lambda>st. safeCall (malloc_device (int ?n))
          (\<lambda>p. safeCall (memcpy_from p (map VConn st) (int ?n)) (\<lambda>u. ret (?f p))))"
    by (simp add: copy_cellConnectivity_def Let_def)
  have "\<exists>st s1. for_loop 0 ?n (connectivity_body ?hs) (replicate ?n wild_connectivity) s = (Inr st, s1)
               \<and> length st = ?n \<and> hmem s1 = hmem s \<and> no_faults s1"
    by (rule connectivity_loop_runs [OF nf _ n rd]) simp
  then show ?thesis unfolding unf by (rule staged_array_copy_runs)
qed

lemma copy_cellGeometry_runs:
  assumes nf: "no_faults s"
    and n: "\<forall>g \<in> set (cellGeometry (mesh d)). 0 \<le> g_size g"
    and rd: "\<forall>g \<in> set (cellGeometry (mesh d)).
               \<exists>vs. read_mem (host_heap s) (g_facet g) (g_size g) = Some vs"
  shows "\<exists>D' s'. copy_cellGeometry d D s = (Inr D', s') \<and> hmem s' = hmem s \<and> no_faults s'"
proof -
  let ?hs = "cellGeometry (mesh d)"
  let ?n = "length ?hs"
  let ?f = "\<lambda>p. D\<lparr>mesh_d := (mesh_d D)\<lparr>cellGeometrySize := int ?n, cellGeometry_d := p\<rparr>\<rparr>"
  have unf: "copy_cellGeometry d D =
     safeCall (for_loop 0 ?n (geometry_body ?hs) (replicate ?n wild_geometry))
       (\<lambda>st. safeCall (malloc_device (int ?n))
          (\<lambda>p. safeCall (memcpy_from p (map VGeom st) (int ?n)) (\<lambda>u. ret (?f p))))"
    by (simp add: copy_cellGeometry_def Let_def)
  have "\<exists>st s1. for_loop 0 ?n (geometry_body ?hs) (replicate ?n wild_geometry) s = (Inr st, s1)
               \<and> length st = ?n \<and> hmem s1 = hmem s \<and> no_faults s1"
    by (rule geometry_loop_runs [OF nf _ n rd]) simp
  then show ?thesis unfolding unf by (rule staged_array_copy_runs)
qed

lemma read_as_readable: "read_as un h p n = Some xs \<Longrightarrow> \<exists>vs. read_mem h p n = Some vs"
  by (auto simp: read_as_def split: option.splits)

lemma view_domain_readable:
  assumes "view_domain h N d = Some x"
  shows "\<forall>c \<in> set (cell_state d). \<exists>vs. read_mem h (total c) N = Some vs"
    and "\<forall>c \<in> set (cellConnectivity (mesh d)).
           (\<exists>vs. read_mem h (c_point c) (num_points c) = Some vs)
           \<and> (\<exists>vs. read_mem h (c_facet c) (num_facets c) = Some vs)"
    and "\<forall>g \<in> set (cellGeometry (mesh d)). \<exists>vs. read_mem h (g_facet g) (g_size g) = Some vs"
proof -
  from assms obtain xs xc xg where
    v1: "view_all (view_cell_state h N) (cell_state d) = Some xs"
    and v4: "view_all (view_connectivity h) (cellConnectivity (mesh d)) = Some xc"
    and v5: "view_all (view_geometry h) (cellGeometry (mesh d)) = Some xg"
    by (auto simp: view_domain_def split: option.splits)
  show "\<forall>c \<in> set (cell_state d). \<exists>vs. read_mem h (total c) N = Some vs"
  proof
    fix c assume "c \<in> set (cell_state d)"
    from view_all_defined [OF v1 this] show "\<exists>vs. read_mem h (total c) N = Some vs"
      by (auto simp: view_cell_state_def split: option.splits dest: read_as_readable)
  qed
  show "\<forall>c \<in> set (cellConnectivity (mesh d)).
           (\<exists>vs. read_mem h (c_point c) (num_points c) = Some vs)
           \<and> (\<exists>vs. read_mem h (c_facet c) (num_facets c) = Some vs)"
  proof
    fix c assume "c \<in> set (cellConnectivity (mesh d))"
    from view_all_defined [OF v4 this]
    show "(\<exists>vs. read_mem h (c_point c) (num_points c) = Some vs)
           \<and> (\<exists>vs. read_mem h (c_facet c) (num_facets c) = Some vs)"
      by (auto simp: view_connectivity_def split: option.splits dest: read_as_readable)
  qed
  show "\<forall>g \<in> set (cellGeometry (mesh d)). \<exists>vs. read_mem h (g_facet g) (g_size g) = Some vs"
  proof
    fix g assume "g \<in> set (cellGeometry (mesh d))"
    from view_all_defined [OF v5 this] show "\<exists>vs. read_mem h (g_facet g) (g_size g) = Some vs"
      by (auto simp: view_geometry_def split: option.splits dest: read_as_readable)
  qed
qed

lemma domain_body_runs:
  assumes nf: "no_faults s" and v: "view_domain (host_heap s) numEG (domain ! i) = Some x"
    and nn: "counts_nonneg numEG (domain ! i)"
  shows "\<exists>dh' s'. domain_body numEG domain i domain_h s = (Inr dh', s')
                 \<and> length dh' = length domain_h \<and> hmem s' = hmem s \<and> no_faults s'"
proof -
  let ?d = "domain ! i"
  note rd = view_domain_readable [OF v]
  from nn have n1: "cell_state ?d \<noteq> [] \<longrightarrow> 0 \<le> numEG"
    and n4: "\<forall>c \<in> set (cellConnectivity (mesh ?d)). 0 \<le> num_points c \<and> 0 \<le> num_facets c"
    and n5: "\<forall>g \<in> set (cellGeometry (mesh ?d)). 0 \<le> g_size g"
    by (simp_all add: counts_nonneg_def)
  from copy_cell_state_runs [OF nf n1 rd(1), of "domain_h ! i"] obtain D1 s1 where
    p1: "copy_cell_state numEG ?d (domain_h ! i) s = (Inr D1, s1)"
    and h1: "hmem s1 = hmem s" and f1: "no_faults s1" by blast
  from copy_nbrRank_runs [OF f1, of ?d D1] obtain D2 s2 where
    p2: "copy_nbrRank ?d D1 s1 = (Inr D2, s2)"
    and h2: "hmem s2 = hmem s1" and f2: "no_faults s2" by blast
  from copy_node_runs [OF f2, of ?d D2] obtain D3 s3 where
    p3: "copy_node ?d D2 s2 = (Inr D3, s3)"
    and h3: "hmem s3 = hmem s2" and f3: "no_faults s3" by blast
  have hh3: "host_heap s3 = host_heap s" by (rule host_heap_cong) (simp add: h1 h2 h3)
  from copy_cellConnectivity_runs [OF f3 n4 rd(2) [folded hh3], of D3] obtain D4 s4 where
    p4: "copy_cellConnectivity ?d D3 s3 = (Inr D4, s4)"
    and h4: "hmem s4 = hmem s3" and f4: "no_faults s4" by blast
  have hh4: "host_heap s4 = host_heap s" by (rule host_heap_cong) (simp add: h1 h2 h3 h4)
  from copy_cellGeometry_runs [OF f4 n5 rd(3) [folded hh4], of D4] obtain D5 s5 where
    p5: "copy_cellGeometry ?d D4 s4 = (Inr D5, s5)"
    and h5: "hmem s5 = hmem s4" and f5: "no_faults s5" by blast
  have "domain_body numEG domain i domain_h s = (Inr (domain_h[i := D5]), s5)"
    by (simp add: domain_body_def safeCall_def p1 p2 p3 p4 p5)
  with h1 h2 h3 h4 h5 f5 show ?thesis by simp
qed

lemma build_completes:
  fixes s :: "('cs, 'v, 'fa, 'gp) machine"
  assumes nf: "no_faults s" and g: "good s"
    and dest: "valid_dest s domain_d (length domain)"
    and v: "view_host (host_heap s) numEG domain = Some vs"
    and nn: "list_all (counts_nonneg numEG) domain"
  shows "\<exists>s'. copyDomainDevice numEG domain domain_d s = (Inr (int (length domain)), s')"
proof -
  let ?n = "length domain"
  let ?I = "\<lambda>(k :: nat) st s1. length st = ?n \<and> hmem s1 = hmem s \<and> no_faults s1"
  have "\<exists>st s1. for_loop 0 ?n (domain_body numEG domain) (replicate ?n wild_domain) s = (Inr st, s1)
               \<and> ?I ?n st s1"
  proof (rule for_loop_runs [where I = ?I])
    fix k and st :: "MC_Domain_d list" and s1 :: "('cs, 'v, 'fa, 'gp) machine"
    assume k: "k < ?n" and I: "?I k st s1"
    from view_all_defined [OF v [unfolded view_host_def] nth_mem [OF k]]
    obtain x where "view_domain (host_heap s) numEG (domain ! k) = Some x" by blast
    moreover from I have "host_heap s1 = host_heap s" by (intro host_heap_cong) simp
    ultimately have vx: "view_domain (host_heap s1) numEG (domain ! k) = Some x"
      by simp
    from nn k have c: "counts_nonneg numEG (domain ! k)" by (simp add: list_all_length)
    from I have nf1: "no_faults s1" by simp
    from domain_body_runs [OF nf1 vx c, of st] obtain a' s' where
      "domain_body numEG domain k st s1 = (Inr a', s')" "length a' = length st"
      "hmem s' = hmem s1" "no_faults s'"
      by blast
    with I show "\<exists>a' s'. domain_body numEG domain k st s1 = (Inr a', s') \<and> ?I (Suc k) a' s'"
      by (intro exI [of _ a'] exI [of _ s']) simp
  next
    show "?I 0 (replicate ?n wild_domain) s" using nf by simp
  qed simp
  then obtain Ds s1 where
    lp: "for_loop 0 ?n (domain_body numEG domain) (replicate ?n wild_domain) s = (Inr Ds, s1)"
    and len: "length Ds = ?n" and nf1: "no_faults s1"
    by blast
  from domains_loop [OF lp, of False] have e: "ext s s1" by (simp add: stays_def)
  have dst: "\<exists>buf. heap_of s1 domain_d = Some buf \<and> nat (int ?n) \<le> length buf \<and> \<not> is_host domain_d"
    if "0 < int ?n"
  proof -
    from that dest obtain a buf where d: "domain_d = DevP a" and b: "dmem s a = Some buf"
      and l: "?n \<le> length buf"
      by (auto simp: valid_dest_def split: ptr.splits option.splits)
    from b g have "a < next_free s"
      by (auto simp: good_def) (metis not_le_imp_less option.distinct(1))
    with e b have "dmem s1 a = Some buf" by (simp add: ext_def)
    with d l show ?thesis by (simp add: heap_of_def is_host_def)
  qed
  let ?vs = "map VDomain Ds :: ('cs, 'v, 'fa, 'gp) val list"
  have src: "local_src ?vs (int ?n) = Some ?vs" by (simp add: local_src_def len)
  have n0: "0 \<le> int ?n" by simp
  from copy_in_runs [OF nf1 n0 src dst] obtain s2 where
    "copy_in domain_d (local_src ?vs (int ?n)) (int ?n) s1 = (Inr (), s2)"
    by blast
  then have "memcpy_from domain_d ?vs (int ?n) s1 = (Inr (), s2)"
    by (simp add: memcpy_from_def)
  with lp show ?thesis
    by (auto simp: copyDomainDevice_unfold safeCall_def)
qed

section \<open>The claims about the builder\<close>

lemma example_good: "good example_machine"
  by (simp add: good_def example_machine_def)

lemma example_valid_dest: "valid_dest example_machine (DevP 0) (length [example_domain])"
  by (simp add: valid_dest_def example_machine_def)

lemma example_view_host:
  "view_host (host_heap example_machine) 2 [example_domain] = Some [example_view]"
  by code_simp

lemma example_run: "fst (copyDomainDevice 2 [example_domain] (DevP 0) example_machine) = Inr 1"
  by code_simp

text \<open>
  Claim C1. When \<^verbatim>\<open>copyDomainDevice\<close> completes, what is read back from the mirror
  through device memory alone (the descriptor array at \<open>domain_d\<close>, and from each
  descriptor the cell states with their cross sections of \<open>numEnergyGroups\<close> elements,
  the neighbor ranks, the nodes, the connectivity cells with their point indices and
  facet adjacencies, the geometry cells with their planes) is equal, element by element
  and in the order of the host, to what the host model holds, and the scalars
  \<^verbatim>\<open>domainIndex\<close>, \<^verbatim>\<open>global_domain\<close> and \<^verbatim>\<open>_domainGid\<close> are those of the host. The host
  model is one whose arrays can be read from host memory with the counts it declares,
  the allocator is sound, and \<open>domain_d\<close> is an array the caller has allocated.
\<close>

theorem mirror_round_trip:
  fixes s :: "('cs, 'v, 'fa, 'gp) machine"
  assumes "good s" and "valid_dest s domain_d (length domain)"
    and "view_host (host_heap s) numEnergyGroups domain = Some vs"
    and "copyDomainDevice numEnergyGroups domain domain_d s = (Inr n, s')"
  shows "view_mirror (dev_heap s') numEnergyGroups domain_d n = Some vs"
  using assms by (rule build_round_trip)

theorem mirror_round_trip_witness:
  "good example_machine
   \<and> valid_dest example_machine (DevP 0) (length [example_domain])
   \<and> view_host (host_heap example_machine) 2 [example_domain] = Some [example_view]
   \<and> fst (copyDomainDevice 2 [example_domain] (DevP 0) example_machine) = Inr 1
   \<and> view_mirror (dev_heap (snd (copyDomainDevice 2 [example_domain] (DevP 0) example_machine)))
        2 (DevP 0) 1 = Some [example_view]"
proof -
  have run: "copyDomainDevice 2 [example_domain] (DevP 0) example_machine
             = (Inr 1, snd (copyDomainDevice 2 [example_domain] (DevP 0) example_machine))"
    using example_run by (simp add: prod_eq_iff)
  from mirror_round_trip [OF example_good example_valid_dest example_view_host run]
  show ?thesis
    using example_good example_valid_dest example_view_host example_run by simp
qed

subsection \<open>The recorded counts\<close>

lemma holds_address_ok: "holds h p n vs \<Longrightarrow> address_ok p n"
  by (auto simp: holds_def address_ok_def split: ptr.splits)

lemma mirrors_counts:
  assumes m: "mirrors_domain h hh N D d"
  shows "counts_recorded h D d"
proof -
  from m obtain cs cc cg where
    sz: "cell_stateSize D = int (length (cell_state d))"
        "nbrRankSize (mesh_d D) = int (length (nbrRank (mesh d)))"
        "nodeSize (mesh_d D) = int (length (node (mesh d)))"
        "cellConnectivitySize (mesh_d D) = int (length (cellConnectivity (mesh d)))"
        "cellGeometrySize (mesh_d D) = int (length (cellGeometry (mesh d)))"
    and h1: "holds h (cell_state_d D) (cell_stateSize D) (map VCellState cs)"
    and h2: "holds h (nbrRank_d (mesh_d D)) (nbrRankSize (mesh_d D)) (map VInt (nbrRank (mesh d)))"
    and h3: "holds h (node_d (mesh_d D)) (nodeSize (mesh_d D)) (map VVector (node (mesh d)))"
    and h4: "holds h (cellConnectivity_d (mesh_d D)) (cellConnectivitySize (mesh_d D)) (map VConn cc)"
    and r4: "list_all2 (mirrors_connectivity h hh) cc (cellConnectivity (mesh d))"
    and h5: "holds h (cellGeometry_d (mesh_d D)) (cellGeometrySize (mesh_d D)) (map VGeom cg)"
    and r5: "list_all2 (mirrors_geometry h hh) cg (cellGeometry (mesh d))"
    unfolding mirrors_domain_def by blast
  have a4: "read_as un_conn h (cellConnectivity_d (mesh_d D)) (cellConnectivitySize (mesh_d D)) = Some cc"
    by (rule read_as_holds [OF h4]) simp
  have a5: "read_as un_geom h (cellGeometry_d (mesh_d D)) (cellGeometrySize (mesh_d D)) = Some cg"
    by (rule read_as_holds [OF h5]) simp
  have c4: "list_all2 (\<lambda>c c0. num_points c = num_points c0 \<and> address_ok (c_point c) (num_points c)
                              \<and> num_facets c = num_facets c0 \<and> address_ok (c_facet c) (num_facets c))
              cc (cellConnectivity (mesh d))"
    using r4 by (rule list_all2_mono) (auto simp: mirrors_connectivity_def dest: holds_address_ok)
  have c5: "list_all2 (\<lambda>g g0. g_size g = g_size g0 \<and> address_ok (g_facet g) (g_size g))
              cg (cellGeometry (mesh d))"
    using r5 by (rule list_all2_mono) (auto simp: mirrors_geometry_def dest: holds_address_ok)
  show ?thesis
    unfolding counts_recorded_def
    using sz holds_address_ok [OF h1] holds_address_ok [OF h2] holds_address_ok [OF h3]
      holds_address_ok [OF h4] holds_address_ok [OF h5] c4 c5
    by (simp add: a4 [unfolded sz] a5 [unfolded sz])
qed

text \<open>
  Claim C2, as amended. A build that completes returns the number of host domains, and
  in every descriptor read back from the array at \<open>domain_d\<close> each recorded count
  (\<^verbatim>\<open>cell_stateSize\<close>, \<^verbatim>\<open>_nbrRankSize\<close>, \<^verbatim>\<open>_nodeSize\<close>, \<^verbatim>\<open>_cellConnectivitySize\<close>,
  \<^verbatim>\<open>_cellGeometrySize\<close>, and \<^verbatim>\<open>num_points\<close>, \<^verbatim>\<open>num_facets\<close>, \<^verbatim>\<open>_size\<close> of each cell) is
  the count of the host array, and the address paired with a count is not null where
  the count is positive. The address paired with a count of zero may be null.
\<close>

theorem counts_and_addresses:
  fixes s :: "('cs, 'v, 'fa, 'gp) machine"
  assumes "good s" and "valid_dest s domain_d (length domain)"
    and "view_host (host_heap s) numEnergyGroups domain = Some vs"
    and "copyDomainDevice numEnergyGroups domain domain_d s = (Inr n, s')"
  shows "n = int (length domain)
         \<and> (case read_as un_domain (dev_heap s') domain_d n of
              None \<Rightarrow> False
            | Some Ds \<Rightarrow> list_all2 (counts_recorded (dev_heap s')) Ds domain)"
proof -
  from build_mirrors [OF assms(4) view_host_side [OF assms(3)] assms(1,2)]
  obtain Ds where n: "n = int (length domain)"
    and rd: "read_mem (dev_heap s') domain_d n = Some (map VDomain Ds)"
    and rel: "list_all2 (mirrors_domain (dev_heap s') (host_heap s) numEnergyGroups) Ds domain"
    by blast
  have "read_as un_domain (dev_heap s') domain_d n = Some Ds"
    using rd those_un_map [of un_domain VDomain Ds] by (simp add: read_as_def)
  moreover have "list_all2 (counts_recorded (dev_heap s')) Ds domain"
    using rel by (rule list_all2_mono) (rule mirrors_counts)
  ultimately show ?thesis using n by simp
qed

theorem counts_and_addresses_witness:
  "good example_machine
   \<and> valid_dest example_machine (DevP 0) (length [example_domain])
   \<and> view_host (host_heap example_machine) 2 [example_domain] = Some [example_view]
   \<and> fst (copyDomainDevice 2 [example_domain] (DevP 0) example_machine) = Inr 1
   \<and> (case read_as un_domain
             (dev_heap (snd (copyDomainDevice 2 [example_domain] (DevP 0) example_machine)))
             (DevP 0) 1 of
        None \<Rightarrow> False
      | Some Ds \<Rightarrow>
          list_all2 (counts_recorded
            (dev_heap (snd (copyDomainDevice 2 [example_domain] (DevP 0) example_machine))))
            Ds [example_domain])"
proof -
  have run: "copyDomainDevice 2 [example_domain] (DevP 0) example_machine
             = (Inr 1, snd (copyDomainDevice 2 [example_domain] (DevP 0) example_machine))"
    using example_run by (simp add: prod_eq_iff)
  from counts_and_addresses [OF example_good example_valid_dest example_view_host run]
  show ?thesis
    using example_good example_valid_dest example_view_host example_run by simp
qed

text \<open>
  The claim as stated asks for a non-null address in every pair. A domain without cells
  on a runtime that returns the null address for an allocation of no element gives a
  descriptor whose cell-state address is null, in a build of a non-empty domain
  sequence that completes.
\<close>

theorem nonnull_addresses_counterexample:
  "[bare_domain] \<noteq> []
   \<and> fst (copyDomainDevice 2 [bare_domain] (DevP 0) example_machine) = Inr 1
   \<and> map_option (map cell_state_d)
        (read_as un_domain
           (dev_heap (snd (copyDomainDevice 2 [bare_domain] (DevP 0) example_machine)))
           (DevP 0) 1)
     = Some [Null]
   \<and> map_option (map cell_stateSize)
        (read_as un_domain
           (dev_heap (snd (copyDomainDevice 2 [bare_domain] (DevP 0) example_machine)))
           (DevP 0) 1)
     = Some [0]"
  by code_simp

subsection \<open>The descriptor array\<close>

lemma no_array_no_build:
  assumes "domain \<noteq> []"
  shows "fst (copyDomainDevice numEG domain Null s) \<noteq> Inr m"
proof
  assume a: "fst (copyDomainDevice numEG domain Null s) = Inr m"
  obtain s' where run: "copyDomainDevice numEG domain Null s = (Inr m, s')"
    using a by (cases "copyDomainDevice numEG domain Null s") simp
  have "False \<longrightarrow> (\<forall>d \<in> set domain. host_side numEG d)" by simp
  with run show False
  proof (cases rule: build_cases)
    case (ok Ds s1)
    from ok(5) assms show ?thesis
      by (cases rule: copy_in_cases) (simp_all add: heap_of_def)
  qed simp
qed

text \<open>
  Claim C3, as amended. After all domains are processed the builder transfers the
  staging array, every descriptor of which reads back as its host domain, in one
  transfer into the array at \<open>domain_d\<close>, and returns the number of domains. The array
  at \<open>domain_d\<close> is supplied by the caller: the builder allocates nothing for it. Up to
  that last transfer host memory and every device allocation that existed before the
  build are as they were; the last transfer changes no device allocation that existed
  before the build other than the one at \<open>domain_d\<close>; for a non-empty domain sequence
  \<open>domain_d\<close> is an address allocated before the build, and a build that is passed the
  null address does not complete.
\<close>

theorem descriptor_array_from_caller:
  fixes s :: "('cs, 'v, 'fa, 'gp) machine"
  assumes "good s" and "valid_dest s domain_d (length domain)"
    and "view_host (host_heap s) numEnergyGroups domain = Some vs"
    and "copyDomainDevice numEnergyGroups domain domain_d s = (Inr n, s')"
  shows "n = int (length domain)
         \<and> (\<exists>Ds s1. ext s s1
                \<and> copy_in domain_d (Some (map VDomain Ds)) n s1 = (Inr (), s')
                \<and> view_all (view_domain_d (dev_heap s') numEnergyGroups) Ds = Some vs)
         \<and> (\<forall>a. a < next_free s \<and> domain_d \<noteq> DevP a \<longrightarrow> dmem s' a = dmem s a)
         \<and> (domain \<noteq> [] \<longrightarrow>
              \<not> fresh_for s domain_d
              \<and> (\<forall>s0 :: ('cs, 'v, 'fa, 'gp) machine. \<forall>m.
                    fst (copyDomainDevice numEnergyGroups domain Null s0) \<noteq> Inr m))"
proof -
  have hs: "True \<longrightarrow> (\<forall>d \<in> set domain. host_side numEnergyGroups d)"
    using view_host_side [OF assms(3)] by simp
  from assms(4) hs show ?thesis
  proof (cases rule: build_cases)
    case (fail e)
    then show ?thesis by simp
  next
    case (ok Ds s1)
    have e: "ext s s1" by (rule stays_ext [OF ok(2)])
    have g1: "good s1" by (rule stays_good [OF ok(2) assms(1)])
    let ?vs = "map VDomain Ds :: ('cs, 'v, 'fa, 'gp) val list"
    have len: "length ?vs = length domain" by (simp add: ok(3))
    have cp: "copy_in domain_d (Some ?vs) (int (length ?vs)) s1 = (Inr (), s')"
      using ok(5) by (simp add: ok(3))
    note fc = final_copy [OF cp assms(1) e g1 assms(2) [folded len]]
    have rel: "list_all2 (mirrors_domain (dev_heap s') (host_heap s) numEnergyGroups) Ds domain"
      using ok(4) [OF assms(1) TrueI] by (rule list_all2_mono) (rule mirrors_domain_mono [OF _ fc(2)])
    have va: "view_all (view_domain_d (dev_heap s') numEnergyGroups) Ds = Some vs"
      using rel assms(3) unfolding view_host_def
      by (rule view_all_transfer) (rule view_domain_transfer)
    have fr: "dmem s' a = dmem s a" if "a < next_free s" "domain_d \<noteq> DevP a" for a
    proof -
      from e that have "dmem s1 a = dmem s a" by (simp add: ext_def)
      moreover have "dmem s' a = dmem s1 a"
        using ok(5) that(2)
        by (cases rule: copy_in_cases)
           (auto simp: same_mem_def store_def logged_def split: ptr.splits)
      ultimately show ?thesis by simp
    qed
    have nf: "\<not> fresh_for s domain_d" if "domain \<noteq> []"
    proof -
      from that assms(2) obtain a buf where "domain_d = DevP a" "dmem s a = Some buf"
        by (auto simp: valid_dest_def split: ptr.splits option.splits)
      with assms(1) show ?thesis
        by (auto simp: fresh_for_def good_def)
    qed
    from ok(1) assms(4) have n: "n = int (length domain)" by simp
    from e ok(5) va have "\<exists>Ds s1. ext s s1
          \<and> copy_in domain_d (Some (map VDomain Ds)) n s1 = (Inr (), s')
          \<and> view_all (view_domain_d (dev_heap s') numEnergyGroups) Ds = Some vs"
      unfolding n by blast
    with n fr nf no_array_no_build show ?thesis by blast
  qed
qed

theorem descriptor_array_from_caller_witness:
  "good example_machine
   \<and> valid_dest example_machine (DevP 0) (length [example_domain])
   \<and> view_host (host_heap example_machine) 2 [example_domain] = Some [example_view]
   \<and> fst (copyDomainDevice 2 [example_domain] (DevP 0) example_machine) = Inr 1
   \<and> [example_domain] \<noteq> []
   \<and> \<not> fresh_for example_machine (DevP 0)
   \<and> fst (copyDomainDevice 2 [example_domain] Null example_machine) \<noteq> Inr 1"
proof -
  have run: "copyDomainDevice 2 [example_domain] (DevP 0) example_machine
             = (Inr 1, snd (copyDomainDevice 2 [example_domain] (DevP 0) example_machine))"
    using example_run by (simp add: prod_eq_iff)
  from descriptor_array_from_caller [OF example_good example_valid_dest example_view_host run]
  have "\<not> fresh_for example_machine (DevP 0)
        \<and> fst (copyDomainDevice 2 [example_domain] Null example_machine) \<noteq> Inr 1"
    by blast
  then show ?thesis
    using example_good example_valid_dest example_view_host example_run by simp
qed

text \<open>
  The claim as stated has the builder allocate the descriptor array. In the completed
  build of the example the descriptors are read back from device address 0, which the
  caller had allocated before the build and the allocator never hands out; and the same
  build, passed the null address instead, fails at its last transfer.
\<close>

theorem builder_allocates_counterexample:
  "fst (copyDomainDevice 2 [example_domain] (DevP 0) example_machine) = Inr 1
   \<and> view_mirror (dev_heap (snd (copyDomainDevice 2 [example_domain] (DevP 0) example_machine)))
        2 (DevP 0) 1 = Some [example_view]
   \<and> dmem example_machine 0 = Some [VUninit]
   \<and> \<not> fresh_for example_machine (DevP 0)
   \<and> fst (copyDomainDevice 2 [example_domain] Null example_machine) = Inl BadAccess"
  by code_simp

subsection \<open>Orderly builds\<close>

lemma orderly_ret: "orderly (ret x)"
  by (auto simp: orderly_def ret_def intro: exI [of _ 0])

lemma orderly_malloc_device: "orderly (malloc_device n)"
  unfolding orderly_def
proof (intro allI)
  fix s :: "('a, 'b, 'c, 'd) machine"
  show "case malloc_device n s of
          (r, s') \<Rightarrow>
            fails s' = fails s
            \<and> (\<exists>k. log s' = log s @ replicate k True @ (case r of Inl e \<Rightarrow> [False] | Inr x \<Rightarrow> []))
            \<and> (\<forall>i. length (log s) \<le> i \<and> i < length (log s') \<and> fails s i \<longrightarrow> \<not> log s' ! i)"
  proof (cases "faulty s \<or> n < 0")
    case True
    then show ?thesis
      by (auto simp: malloc_device_def logged_def nth_append less_Suc_eq intro: exI [of _ 0])
  next
    case False
    then show ?thesis
      by (auto simp: malloc_device_def logged_def faulty_def nth_append less_Suc_eq
               intro: exI [of _ 1])
  qed
qed

lemma orderly_copy_with:
  "orderly (\<lambda>s. copy_in dst (src s) n s)"
  unfolding orderly_def
proof (intro allI)
  fix s :: "('a, 'b, 'c, 'd) machine"
  have st: "fails (store dst buf s) = fails s" "log (store dst buf s) = log s" for buf
    by (cases dst; simp add: store_def)+
  show "case copy_in dst (src s) n s of
          (r, s') \<Rightarrow>
            fails s' = fails s
            \<and> (\<exists>k. log s' = log s @ replicate k True @ (case r of Inl e \<Rightarrow> [False] | Inr x \<Rightarrow> []))
            \<and> (\<forall>i. length (log s) \<le> i \<and> i < length (log s') \<and> fails s i \<longrightarrow> \<not> log s' ! i)"
  proof (cases "faulty s \<or> n < 0")
    case True
    then show ?thesis
      by (auto simp: copy_in_def logged_def nth_append less_Suc_eq intro: exI [of _ 0])
  next
    case False
    then have nf: "\<not> fails s (length (log s))" by (simp add: faulty_def)
    obtain r s' where c: "copy_in dst (src s) n s = (r, s')" by (cases "copy_in dst (src s) n s")
    from c show ?thesis
    proof (cases rule: copy_in_cases)
      case (fail e)
      with c False have "log s' = log s @ [False]" "fails s' = fails s"
        by (auto simp: copy_in_def logged_def split: if_splits option.splits)
      with fail c show ?thesis
        by (auto simp: nth_append less_Suc_eq intro: exI [of _ 0])
    next
      case zero
      with c False have "log s' = log s @ [True]" "fails s' = fails s"
        by (auto simp: copy_in_def logged_def split: if_splits option.splits)
      with zero c nf show ?thesis
        by (auto simp: nth_append less_Suc_eq intro: exI [of _ 1])
    next
      case (ok vs buf)
      then have "log s' = log s @ [True]" "fails s' = fails s"
        by (simp_all add: logged_def st)
      with ok c nf show ?thesis
        by (auto simp: nth_append less_Suc_eq intro: exI [of _ 1])
    qed
  qed
qed

lemma orderly_memcpy: "orderly (memcpy dst q n)"
  unfolding memcpy_as_copy_in by (rule orderly_copy_with)

lemma orderly_memcpy_from: "orderly (memcpy_from dst xs n)"
  unfolding memcpy_from_as_copy_in by (rule orderly_copy_with)

lemma orderly_memcpy_stage: "orderly (memcpy_stage xs n)"
  unfolding orderly_def
proof (intro allI)
  fix s :: "('a, 'b, 'c, 'd) machine"
  show "case memcpy_stage xs n s of
          (r, s') \<Rightarrow>
            fails s' = fails s
            \<and> (\<exists>k. log s' = log s @ replicate k True @ (case r of Inl e \<Rightarrow> [False] | Inr x \<Rightarrow> []))
            \<and> (\<forall>i. length (log s) \<le> i \<and> i < length (log s') \<and> fails s i \<longrightarrow> \<not> log s' ! i)"
  proof (cases "faulty s \<or> n < 0")
    case True
    then show ?thesis
      by (auto simp: memcpy_stage_def logged_def nth_append less_Suc_eq intro: exI [of _ 0])
  next
    case False
    then show ?thesis
      by (cases "local_src xs n")
         (auto simp: memcpy_stage_def logged_def faulty_def nth_append less_Suc_eq
               intro: exI [of _ 0] exI [of _ 1])
  qed
qed

lemma orderly_safeCall:
  assumes m: "orderly m" and f: "\<And>x. orderly (f x)"
  shows "orderly (safeCall m f)"
  unfolding orderly_def
proof (intro allI)
  fix s
  obtain r1 s1 where ms: "m s = (r1, s1)" by (cases "m s")
  from m ms obtain k where m1: "fails s1 = fails s"
    and m2: "log s1 = log s @ replicate k True @ (case r1 of Inl e \<Rightarrow> [False] | Inr x \<Rightarrow> [])"
    and m3: "\<forall>i. length (log s) \<le> i \<and> i < length (log s1) \<and> fails s i \<longrightarrow> \<not> log s1 ! i"
    by (auto simp: orderly_def dest!: spec [of _ s])
  show "case safeCall m f s of
          (r, s') \<Rightarrow>
            fails s' = fails s
            \<and> (\<exists>k. log s' = log s @ replicate k True @ (case r of Inl e \<Rightarrow> [False] | Inr x \<Rightarrow> []))
            \<and> (\<forall>i. length (log s) \<le> i \<and> i < length (log s') \<and> fails s i \<longrightarrow> \<not> log s' ! i)"
  proof (cases r1)
    case (Inl e)
    with ms have "safeCall m f s = (Inl e, s1)" by (simp add: safeCall_def)
    with m1 m2 m3 Inl show ?thesis by auto
  next
    case (Inr x)
    obtain r s' where fs: "f x s1 = (r, s')" by (cases "f x s1")
    from f [of x] fs obtain k' where f1: "fails s' = fails s1"
      and f2: "log s' = log s1 @ replicate k' True @ (case r of Inl e \<Rightarrow> [False] | Inr x \<Rightarrow> [])"
      and f3: "\<forall>i. length (log s1) \<le> i \<and> i < length (log s') \<and> fails s1 i \<longrightarrow> \<not> log s' ! i"
      by (auto simp: orderly_def dest!: spec [of _ s1])
    from ms Inr fs have sc: "safeCall m f s = (r, s')" by (simp add: safeCall_def)
    from m2 Inr have l1: "log s1 = log s @ replicate k True" by simp
    have "log s' = log s @ replicate (k + k') True @ (case r of Inl e \<Rightarrow> [False] | Inr x \<Rightarrow> [])"
      by (simp add: f2 l1 replicate_add)
    moreover have "\<not> log s' ! i" if "length (log s) \<le> i" "i < length (log s')" "fails s i" for i
    proof (cases "i < length (log s1)")
      case True
      with m3 that have "\<not> log s1 ! i" by simp
      with True show ?thesis by (simp add: f2 nth_append)
    next
      case False
      with f3 that m1 show ?thesis by simp
    qed
    ultimately show ?thesis using sc f1 m1 by auto
  qed
qed

lemma orderly_for_loop:
  assumes "\<And>k a. orderly (body k a)"
  shows "orderly (for_loop j n body a)"
proof (induction "n - j" arbitrary: j a)
  case 0
  then have "for_loop j n body a = ret a"
    by (intro HOL.ext) (simp add: for_loop_stop ret_def)
  then show ?case by (simp add: orderly_ret)
next
  case (Suc d)
  then have lt: "j < n" by simp
  then have "for_loop j n body a = safeCall (body j a) (for_loop (Suc j) n body)"
    by (intro HOL.ext) (simp add: for_loop_step)
  moreover have "orderly (for_loop (Suc j) n body a')" for a'
    using Suc.hyps(2) by (intro Suc.hyps(1)) simp
  ultimately show ?case by (simp add: orderly_safeCall assms)
qed

lemmas orderly_intros =
  orderly_safeCall orderly_for_loop orderly_ret orderly_malloc_device orderly_memcpy
  orderly_memcpy_from orderly_memcpy_stage

lemma orderly_build: "orderly (copyDomainDevice numEG domain domain_d)"
  unfolding copyDomainDevice_unfold domain_body_def copy_cell_state_def copy_nbrRank_def
    copy_node_def copy_cellConnectivity_def copy_cellGeometry_def cell_state_body_def
    connectivity_body_def geometry_body_def Let_def
  by (intro orderly_intros)

lemma build_failure_ext:
  assumes "copyDomainDevice numEG domain domain_d s = (Inl e, s')"
  shows "ext s s'"
proof -
  have "False \<longrightarrow> (\<forall>d \<in> set domain. host_side numEG d)" by simp
  with assms show ?thesis
    by (cases rule: build_cases) (simp_all add: stays_def)
qed

text \<open>
  Claim C4. Every allocation and every transfer of \<^verbatim>\<open>copyDomainDevice\<close> is a call to
  the runtime that is checked. The log of the calls a build issues is a run of
  successes, followed by one failure exactly when the build fails: the first call that
  fails is the last call issued, so no allocation or transfer follows it. A call the
  runtime was set to fail has failed, so it ends the build. A build that fails returns
  no count, and it leaves host memory and every device allocation that existed before
  it, the caller's descriptor array among them, as they were: no mirror, partial or
  not, is handed to the caller.
\<close>

theorem build_fails_fast:
  "case copyDomainDevice numEnergyGroups domain domain_d s of
     (r, s') \<Rightarrow>
       (\<exists>k. log s' = log s @ replicate k True @ (case r of Inl e \<Rightarrow> [False] | Inr n \<Rightarrow> []))
       \<and> (\<forall>i. length (log s) \<le> i \<and> i < length (log s') \<and> fails s i \<longrightarrow> \<not> log s' ! i)
       \<and> (case r of Inl e \<Rightarrow> mirror_handle domain_d r = None \<and> ext s s' | Inr n \<Rightarrow> True)"
proof -
  obtain r s' where run: "copyDomainDevice numEnergyGroups domain domain_d s = (r, s')"
    by (cases "copyDomainDevice numEnergyGroups domain domain_d s")
  from orderly_build [of numEnergyGroups domain domain_d] run
  have "(\<exists>k. log s' = log s @ replicate k True @ (case r of Inl e \<Rightarrow> [False] | Inr n \<Rightarrow> []))
        \<and> (\<forall>i. length (log s) \<le> i \<and> i < length (log s') \<and> fails s i \<longrightarrow> \<not> log s' ! i)"
    by (auto simp: orderly_def dest!: spec [of _ s])
  moreover have "ext s s'" if "r = Inl e" for e
    using run that by (auto intro: build_failure_ext)
  ultimately show ?thesis
    using run by (auto simp: mirror_handle_def split: sum.splits)
qed

lemma failing_run:
  "fst (copyDomainDevice 2 [example_domain] (DevP 0) failing_machine) = Inl CopyFailed"
  "log (snd (copyDomainDevice 2 [example_domain] (DevP 0) failing_machine))
   = [True, True, True, True, False]"
  by code_simp+

theorem build_fails_fast_witness:
  "fails failing_machine 4 \<and> length (log failing_machine) \<le> 4
   \<and> fst (copyDomainDevice 2 [example_domain] (DevP 0) failing_machine) = Inl CopyFailed
   \<and> log (snd (copyDomainDevice 2 [example_domain] (DevP 0) failing_machine))
     = log failing_machine @ replicate 4 True @ [False]
   \<and> \<not> log (snd (copyDomainDevice 2 [example_domain] (DevP 0) failing_machine)) ! 4
   \<and> ext failing_machine (snd (copyDomainDevice 2 [example_domain] (DevP 0) failing_machine))"
proof -
  have run: "copyDomainDevice 2 [example_domain] (DevP 0) failing_machine
             = (Inl CopyFailed, snd (copyDomainDevice 2 [example_domain] (DevP 0) failing_machine))"
    using failing_run(1) by (simp add: prod_eq_iff)
  have f: "fails failing_machine 4" "log failing_machine = []"
    by (simp_all add: failing_machine_def example_machine_def)
  from build_fails_fast [where numEnergyGroups = 2 and domain = "[example_domain]"
         and domain_d = "DevP 0" and s = failing_machine]
  have "ext failing_machine (snd (copyDomainDevice 2 [example_domain] (DevP 0) failing_machine))"
    by (subst (asm) run) simp
  with f failing_run show ?thesis
    by (simp add: numeral_eq_Suc)
qed

subsection \<open>Closed target-space memory\<close>

lemma complete_overwrite:
  assumes c: "complete (dev_heap s) p m"
    and b: "dmem s a = Some buf" and n: "length vs \<le> length buf" and u: "VUninit \<notin> set vs"
  shows "complete (dev_heap (s\<lparr>dmem := (dmem s)(a \<mapsto> vs @ drop (length vs) buf)\<rparr>)) p m"
proof (cases p)
  case (DevP a')
  show ?thesis
  proof (cases "a' = a")
    case True
    with c b DevP have "length buf = nat m" "VUninit \<notin> set buf" "0 \<le> m"
      by (auto simp: complete_def dev_heap_def)
    with n u DevP True show ?thesis
      by (auto simp: complete_def dev_heap_def dest: in_set_dropD)
  next
    case False
    with c DevP show ?thesis by (auto simp: complete_def dev_heap_def split: option.splits)
  qed
qed (use c in \<open>auto simp: complete_def\<close>)

lemma val_ok_overwrite:
  assumes "val_ok (dev_heap s) N v"
    and "dmem s a = Some buf" "length vs \<le> length buf" "VUninit \<notin> set vs"
  shows "val_ok (dev_heap (s\<lparr>dmem := (dmem s)(a \<mapsto> vs @ drop (length vs) buf)\<rparr>)) N v"
  using assms(1)
  by (cases v) (auto simp: val_ok_def intro: complete_overwrite [OF _ assms(2,3,4)])

lemma closed_logged [simp]: "closed N (logged ok s) = closed N s"
proof -
  have "dev_heap (logged ok s) = dev_heap s"
    by (intro HOL.ext) (simp add: dev_heap_def logged_def split: ptr.splits)
  then show ?thesis by (simp add: closed_def logged_def)
qed

lemma store_closed:
  assumes c: "closed N s" and b: "heap_of s dst = Some buf" and n: "length vs \<le> length buf"
    and u: "VUninit \<notin> set vs" and ok: "\<forall>v \<in> set vs. val_ok (dev_heap s) N v"
  shows "closed N (store dst (vs @ drop (length vs) buf) s)"
proof (cases dst)
  case (DevP a)
  with b have d: "dmem s a = Some buf" by (simp add: heap_of_def)
  let ?s' = "s\<lparr>dmem := (dmem s)(a \<mapsto> vs @ drop (length vs) buf)\<rparr>"
  have "val_ok (dev_heap ?s') N v" if "dmem ?s' a' = Some buf'" "v \<in> set buf'" for a' buf' v
  proof -
    have "val_ok (dev_heap s) N v"
    proof (cases "a' = a")
      case True
      with that have "v \<in> set vs \<or> v \<in> set buf" by (auto dest: in_set_dropD)
      with ok c d show ?thesis by (auto simp: closed_def)
    next
      case False
      with that c show ?thesis by (auto simp: closed_def)
    qed
    then show ?thesis by (rule val_ok_overwrite [OF _ d n u])
  qed
  then have "closed N ?s'" unfolding closed_def by blast
  with DevP show ?thesis by (simp add: store_def)
next
  case (HostP a)
  have "dev_heap (store dst (vs @ drop (length vs) buf) s) = dev_heap s"
    using HostP by (intro HOL.ext) (simp add: dev_heap_def store_def split: ptr.splits)
  with c HostP show ?thesis by (simp add: closed_def store_def)
qed (use b in \<open>simp_all add: heap_of_def\<close>)

lemma build_closed:
  fixes s :: "('cs, 'v, 'fa, 'gp) machine"
  assumes run: "copyDomainDevice numEG domain domain_d s = (r, s')"
    and g: "good s" and lf: "host_leafy s" and c: "closed numEG s"
    and hs: "\<forall>d \<in> set domain. host_side numEG d"
  shows "closed numEG s'"
proof -
  have "True \<longrightarrow> (\<forall>d \<in> set domain. host_side numEG d)" using hs by simp
  with run show ?thesis
  proof (cases rule: build_cases)
    case (fail e)
    with g lf c show ?thesis by (simp add: stays_def)
  next
    case (ok Ds s1)
    from ok(2) g lf c have c1: "closed numEG s1" and g1: "good s1"
      by (simp_all add: stays_def)
    let ?vs = "map VDomain Ds :: ('cs, 'v, 'fa, 'gp) val list"
    have vok: "\<forall>v \<in> set ?vs. val_ok (dev_heap s1) numEG v"
      by (rule staged_val_ok [OF ok(4) [OF g TrueI] mirrors_domain_ok device_from_dev_heap])
    have nu: "VUninit \<notin> set ?vs" by auto
    from ok(5) show ?thesis
    proof (cases rule: copy_in_cases)
      case (fail e)
      then show ?thesis by simp
    next
      case zero
      with c1 show ?thesis by (auto intro: same_mem_closed)
    next
      case cp: (ok ws buf)
      from cp(3) have ws: "ws = ?vs" by simp
      from cp(5) ok(3) have n: "length ?vs \<le> length buf" by simp
      have "closed numEG (store domain_d (?vs @ drop (length ?vs) buf) s1)"
        by (rule store_closed [OF c1 cp(4) n nu vok])
      with cp(6) ok(3) show ?thesis by (simp add: ws)
    qed
  qed
qed

lemma example_host_leafy: "host_leafy example_machine"
  by (auto simp: host_leafy_def example_machine_def example_hmem_def split: if_splits)

lemma example_closed: "closed 2 example_machine"
  by (auto simp: closed_def example_machine_def val_ok_def split: if_splits)

lemma example_host_side: "\<forall>d \<in> set [example_domain]. host_side 2 d"
  by (simp add: host_side_def example_domain_def example_cell_def example_connectivity_def
        example_geometry_def src_ok_def is_dev_def)

text \<open>
  Claim C5. The build keeps target-space memory closed: in the machine a build ends in,
  whether it completed or was stopped by the failure of any of its calls, every
  address-valued field of every element of every device allocation is the address of a
  device allocation whose elements have all been written (the null address for an
  allocation of no element), and none is a host address or an indeterminate one. The
  runtime can fail any call, so this holds at every call of the build, in particular
  where the staged cell states, connectivity cells, geometry cells and descriptors are
  transferred. The host model holds no device address, host memory holds written leaf
  data, the allocator is sound and target-space memory is closed at the start.
\<close>

theorem bottom_up_keeps_closed:
  fixes s :: "('cs, 'v, 'fa, 'gp) machine"
  assumes "good s" and "host_leafy s" and "closed numEnergyGroups s"
    and "\<forall>d \<in> set domain. host_side numEnergyGroups d"
  shows "closed numEnergyGroups (snd (copyDomainDevice numEnergyGroups domain domain_d s))"
proof -
  obtain r s' where run: "copyDomainDevice numEnergyGroups domain domain_d s = (r, s')"
    by (cases "copyDomainDevice numEnergyGroups domain domain_d s")
  from build_closed [OF run assms] run show ?thesis by simp
qed

theorem bottom_up_keeps_closed_witness:
  "good failing_machine \<and> host_leafy failing_machine \<and> closed 2 failing_machine
   \<and> list_all (host_side 2) [example_domain]
   \<and> closed 2 (snd (copyDomainDevice 2 [example_domain] (DevP 0) failing_machine))
   \<and> closed 2 (snd (copyDomainDevice 2 [example_domain] (DevP 0) example_machine))"
proof -
  have g: "good failing_machine"
    using example_good by (simp add: good_def failing_machine_def)
  have l: "host_leafy failing_machine"
    using example_host_leafy by (simp add: host_leafy_def failing_machine_def)
  have "dev_heap failing_machine = dev_heap example_machine"
    by (intro HOL.ext) (simp add: dev_heap_def failing_machine_def split: ptr.splits)
  then have c: "closed 2 failing_machine"
    using example_closed by (simp add: closed_def failing_machine_def)
  from bottom_up_keeps_closed [OF g l c example_host_side, of "DevP 0"]
    bottom_up_keeps_closed [OF example_good example_host_leafy example_closed example_host_side,
      of "DevP 0"]
  show ?thesis using g l c example_host_side by simp
qed

subsection \<open>Degenerate inputs\<close>

lemma empty_build:
  fixes s :: "('cs, 'v, 'fa, 'gp) machine"
  assumes "no_faults s"
  shows "copyDomainDevice numEG ([] :: ('cs, 'v, 'bs) MC_Domain list) domain_d s
         = (Inr 0, logged True s)"
  using assms
  by (simp add: copyDomainDevice_unfold for_loop_stop safeCall_def memcpy_from_def
      copy_in_def faulty_def no_faults_def ret_def)

lemma mirrors_no_cells:
  assumes "mirrors_domain h hh N D d" and "no_cells d"
  shows "records_no_cells D"
  using assms by (simp add: mirrors_domain_def no_cells_def records_no_cells_def)

text \<open>
  Claim C6, as amended. On a runtime that fails no call, \<^verbatim>\<open>copyDomainDevice\<close> of an
  empty domain sequence completes with count 0, allocates nothing and writes nothing,
  and the address of the result is the address \<open>domain_d\<close> the caller passed, whatever
  it is: the builder yields no address of its own. And a build of a readable host model
  without negative counts into a valid descriptor array completes; the descriptor read
  back for a domain with zero cells records count zero for its cell-state,
  cell-connectivity and cell-geometry arrays, and the whole mirror reads back as the
  host model does, every array read with its recorded count.
\<close>

theorem degenerate_inputs:
  fixes s :: "('cs, 'v, 'fa, 'gp) machine" and domain :: "('cs, 'v, 'bs) MC_Domain list"
  assumes "no_faults s"
  shows "mirror_handle domain_d
           (fst (copyDomainDevice numEnergyGroups ([] :: ('cs, 'v, 'bs) MC_Domain list) domain_d s))
         = Some (domain_d, 0)
         \<and> same_mem s
             (snd (copyDomainDevice numEnergyGroups ([] :: ('cs, 'v, 'bs) MC_Domain list) domain_d s))
         \<and> (good s \<and> valid_dest s domain_d (length domain)
            \<and> view_host (host_heap s) numEnergyGroups domain = Some vs
            \<and> list_all (counts_nonneg numEnergyGroups) domain
            \<longrightarrow> (\<exists>s' Ds.
                   copyDomainDevice numEnergyGroups domain domain_d s
                     = (Inr (int (length domain)), s')
                   \<and> read_as un_domain (dev_heap s') domain_d (int (length domain)) = Some Ds
                   \<and> list_all2 (\<lambda>D d. no_cells d \<longrightarrow> records_no_cells D) Ds domain
                   \<and> view_mirror (dev_heap s') numEnergyGroups domain_d (int (length domain))
                     = Some vs))"
proof (intro conjI impI)
  show "mirror_handle domain_d
          (fst (copyDomainDevice numEnergyGroups ([] :: ('cs, 'v, 'bs) MC_Domain list) domain_d s))
        = Some (domain_d, 0)"
    by (simp add: empty_build [OF assms] mirror_handle_def)
  show "same_mem s
          (snd (copyDomainDevice numEnergyGroups ([] :: ('cs, 'v, 'bs) MC_Domain list) domain_d s))"
    by (simp add: empty_build [OF assms] same_mem_def logged_def)
next
  assume h: "good s \<and> valid_dest s domain_d (length domain)
             \<and> view_host (host_heap s) numEnergyGroups domain = Some vs
             \<and> list_all (counts_nonneg numEnergyGroups) domain"
  then have g: "good s" and dest: "valid_dest s domain_d (length domain)"
    and v: "view_host (host_heap s) numEnergyGroups domain = Some vs"
    and nn: "list_all (counts_nonneg numEnergyGroups) domain"
    by simp_all
  from build_completes [OF assms g dest v nn] obtain s' where
    run: "copyDomainDevice numEnergyGroups domain domain_d s = (Inr (int (length domain)), s')"
    by blast
  from build_mirrors [OF run view_host_side [OF v] g dest]
  obtain Ds where rd: "read_mem (dev_heap s') domain_d (int (length domain)) = Some (map VDomain Ds)"
    and rel: "list_all2 (mirrors_domain (dev_heap s') (host_heap s) numEnergyGroups) Ds domain"
    by blast
  have "read_as un_domain (dev_heap s') domain_d (int (length domain)) = Some Ds"
    using rd those_un_map [of un_domain VDomain Ds] by (simp add: read_as_def)
  moreover have "list_all2 (\<lambda>D d. no_cells d \<longrightarrow> records_no_cells D) Ds domain"
    using rel by (rule list_all2_mono) (simp add: mirrors_no_cells)
  moreover note build_round_trip [OF g dest v run]
  ultimately show "\<exists>s' Ds.
      copyDomainDevice numEnergyGroups domain domain_d s = (Inr (int (length domain)), s')
      \<and> read_as un_domain (dev_heap s') domain_d (int (length domain)) = Some Ds
      \<and> list_all2 (\<lambda>D d. no_cells d \<longrightarrow> records_no_cells D) Ds domain
      \<and> view_mirror (dev_heap s') numEnergyGroups domain_d (int (length domain)) = Some vs"
    using run by blast
qed

theorem degenerate_inputs_witness:
  "no_faults example_machine
   \<and> good example_machine
   \<and> valid_dest example_machine (DevP 0) (length [bare_domain])
   \<and> view_host (host_heap example_machine) 2 [bare_domain] = Some [bare_view]
   \<and> list_all (counts_nonneg 2) [bare_domain]
   \<and> no_cells bare_domain
   \<and> mirror_handle (DevP 0)
        (fst (copyDomainDevice 2 ([] :: (nat, nat, nat) MC_Domain list) (DevP 0) example_machine))
     = Some (DevP 0, 0)
   \<and> same_mem example_machine
        (snd (copyDomainDevice 2 ([] :: (nat, nat, nat) MC_Domain list) (DevP 0) example_machine))
   \<and> fst (copyDomainDevice 2 [bare_domain] (DevP 0) example_machine) = Inr 1
   \<and> map_option (map records_no_cells)
        (read_as un_domain
           (dev_heap (snd (copyDomainDevice 2 [bare_domain] (DevP 0) example_machine)))
           (DevP 0) 1)
     = Some [True]
   \<and> view_mirror (dev_heap (snd (copyDomainDevice 2 [bare_domain] (DevP 0) example_machine)))
        2 (DevP 0) 1
     = Some [bare_view]"
proof -
  have nf: "no_faults example_machine" by (simp add: no_faults_def example_machine_def)
  have g: "good example_machine" by (simp add: good_def example_machine_def)
  have dest: "valid_dest example_machine (DevP 0) (length [bare_domain])"
    by (simp add: valid_dest_def example_machine_def)
  have v: "view_host (host_heap example_machine) 2 [bare_domain] = Some [bare_view]"
    by code_simp
  have nn: "list_all (counts_nonneg 2) [bare_domain]"
    by (simp add: counts_nonneg_def bare_domain_def)
  have nc: "no_cells bare_domain" by (simp add: no_cells_def bare_domain_def)
  from degenerate_inputs [OF nf, of "DevP 0" 2 "[bare_domain]" "[bare_view]"] g dest v nn
  obtain s' Ds where
    a: "mirror_handle (DevP 0)
          (fst (copyDomainDevice 2 ([] :: (nat, nat, nat) MC_Domain list) (DevP 0) example_machine))
        = Some (DevP 0, 0)"
    and b: "same_mem example_machine
          (snd (copyDomainDevice 2 ([] :: (nat, nat, nat) MC_Domain list) (DevP 0) example_machine))"
    and run: "copyDomainDevice 2 [bare_domain] (DevP 0) example_machine = (Inr 1, s')"
    and rd: "read_as un_domain (dev_heap s') (DevP 0) 1 = Some Ds"
    and rel: "list_all2 (\<lambda>D d. no_cells d \<longrightarrow> records_no_cells D) Ds [bare_domain]"
    and vm: "view_mirror (dev_heap s') 2 (DevP 0) 1 = Some [bare_view]"
    by auto
  from rel nc obtain D where "Ds = [D]" "records_no_cells D"
    by (auto simp: list_all2_Cons2)
  with rd have "map_option (map records_no_cells) (read_as un_domain (dev_heap s') (DevP 0) 1)
                = Some [True]"
    by simp
  with nf g dest v nn nc a b run vm show ?thesis by simp
qed

text \<open>
  The claim as stated has the build of an empty sequence yield a non-null result. The
  address of the result is the caller's: with the null address passed for \<open>domain_d\<close>,
  the build of the empty sequence completes with count 0 and the caller holds the null
  address.
\<close>

theorem empty_result_counterexample:
  "fst (copyDomainDevice 2 ([] :: (nat, nat, nat) MC_Domain list) Null example_machine) = Inr 0
   \<and> mirror_handle Null
        (fst (copyDomainDevice 2 ([] :: (nat, nat, nat) MC_Domain list) Null example_machine))
     = Some (Null, 0)"
  by code_simp
lemma copy_in_hmem:
  assumes "copy_in dst src n s = (r, s')" "\<not> is_host dst"
  shows "hmem s' = hmem s"
  using assms(1)
proof (cases rule: copy_in_cases)
  case (ok vs buf)
  with assms(2) show ?thesis
    by (cases dst) (simp_all add: store_def logged_def is_host_def)
qed (simp_all add: same_mem_def)

lemma build_hmem:
  assumes "copyDomainDevice numEG domain domain_d s = (r, s')" "\<not> is_host domain_d"
  shows "hmem s' = hmem s"
proof -
  have "False \<longrightarrow> (\<forall>d \<in> set domain. host_side numEG d)" by simp
  with assms(1) show ?thesis
  proof (cases rule: build_cases)
    case (fail e)
    then show ?thesis by (simp add: stays_def ext_def)
  next
    case (ok Ds s1)
    from ok(5) assms(2) have "hmem s' = hmem s1" by (rule copy_in_hmem)
    with ok(2) show ?thesis by (simp add: stays_def ext_def)
  qed
qed

text \<open>
  Claim C7. \<^verbatim>\<open>copyDomainDevice\<close> does not change the host domain model. The domain
  sequence is passed by value; the arrays its cells point to are in host memory, and
  host memory after the build, completed or aborted, is the host memory before it, so
  the host model reads as before. The address \<open>domain_d\<close> the caller passes for the
  descriptor array is not a host address.
\<close>

theorem host_model_untouched:
  assumes "\<not> is_host domain_d"
  shows "hmem (snd (copyDomainDevice numEnergyGroups domain domain_d s)) = hmem s
         \<and> view_host (host_heap (snd (copyDomainDevice numEnergyGroups domain domain_d s)))
              numEnergyGroups domain
           = view_host (host_heap s) numEnergyGroups domain"
proof -
  obtain r s' where run: "copyDomainDevice numEnergyGroups domain domain_d s = (r, s')"
    by (cases "copyDomainDevice numEnergyGroups domain domain_d s")
  from build_hmem [OF run assms] have h: "hmem s' = hmem s" .
  then have "host_heap s' = host_heap s"
    by (intro HOL.ext) (simp add: host_heap_def split: ptr.splits)
  with h run show ?thesis by simp
qed

theorem host_model_untouched_witness:
  "\<not> is_host (DevP 0)
   \<and> hmem (snd (copyDomainDevice 2 [example_domain] (DevP 0) failing_machine)) = hmem failing_machine
   \<and> view_host (host_heap (snd (copyDomainDevice 2 [example_domain] (DevP 0) failing_machine)))
        2 [example_domain]
     = view_host (host_heap failing_machine) 2 [example_domain]"
proof -
  have h: "\<not> is_host (DevP 0)" by (simp add: is_host_def)
  from host_model_untouched [OF h, of 2 "[example_domain]" failing_machine] h
  show ?thesis by simp
qed

text \<open>
  Claim C8. Two builds from the same frozen host model with the same
  \<open>numEnergyGroups\<close>, started on machines that share the host memory and may differ in
  everything else (allocator state, device memory, the address the caller passes),
  give mirrors with the same counts, scalars and array contents: both mirrors are
  readable, every array with its recorded count, and what is read back from each of
  them is what the host model reads as, so the two read-backs are equal and both runs
  return the number of host domains. Only the addresses inside the mirrors may differ.
\<close>

theorem two_builds_same_structure:
  fixes s1 s2 :: "('cs, 'v, 'fa, 'gp) machine"
  assumes "hmem s2 = hmem s1"
    and "view_host (host_heap s1) numEnergyGroups domain = Some vs"
    and "good s1" and "valid_dest s1 d1 (length domain)"
    and "good s2" and "valid_dest s2 d2 (length domain)"
    and "copyDomainDevice numEnergyGroups domain d1 s1 = (Inr n1, s1')"
    and "copyDomainDevice numEnergyGroups domain d2 s2 = (Inr n2, s2')"
  shows "n1 = int (length domain) \<and> n2 = int (length domain)
         \<and> view_mirror (dev_heap s1') numEnergyGroups d1 n1 = Some vs
         \<and> view_mirror (dev_heap s2') numEnergyGroups d2 n2 = Some vs"
proof -
  have hh: "host_heap s2 = host_heap s1"
    using assms(1) by (intro HOL.ext) (simp add: host_heap_def split: ptr.splits)
  have v2: "view_host (host_heap s2) numEnergyGroups domain = Some vs"
    using assms(2) by (simp add: hh)
  have "view_mirror (dev_heap s1') numEnergyGroups d1 n1 = Some vs"
    using assms(3,4,2,7) by (rule build_round_trip)
  moreover have "view_mirror (dev_heap s2') numEnergyGroups d2 n2 = Some vs"
    using assms(5,6) v2 assms(8) by (rule build_round_trip)
  moreover have "n1 = int (length domain)"
    using build_mirrors [OF assms(7) view_host_side [OF assms(2)] assms(3,4)] by simp
  moreover have "n2 = int (length domain)"
    using build_mirrors [OF assms(8) view_host_side [OF v2] assms(5,6)] by simp
  ultimately show ?thesis by simp
qed

lemma other_good: "good other_machine"
  by (simp add: good_def other_machine_def example_machine_def)

lemma other_valid_dest: "valid_dest other_machine (DevP 3) (length [example_domain])"
  by (simp add: valid_dest_def other_machine_def example_machine_def)

lemma other_run: "fst (copyDomainDevice 2 [example_domain] (DevP 3) other_machine) = Inr 1"
  by code_simp

theorem two_builds_same_structure_witness:
  "hmem other_machine = hmem example_machine
   \<and> view_host (host_heap example_machine) 2 [example_domain] = Some [example_view]
   \<and> good example_machine \<and> valid_dest example_machine (DevP 0) (length [example_domain])
   \<and> good other_machine \<and> valid_dest other_machine (DevP 3) (length [example_domain])
   \<and> fst (copyDomainDevice 2 [example_domain] (DevP 0) example_machine) = Inr 1
   \<and> fst (copyDomainDevice 2 [example_domain] (DevP 3) other_machine) = Inr 1
   \<and> view_mirror (dev_heap (snd (copyDomainDevice 2 [example_domain] (DevP 0) example_machine)))
        2 (DevP 0) 1
     = Some [example_view]
   \<and> view_mirror (dev_heap (snd (copyDomainDevice 2 [example_domain] (DevP 3) other_machine)))
        2 (DevP 3) 1
     = Some [example_view]"
proof -
  have hm: "hmem other_machine = hmem example_machine"
    by (simp add: other_machine_def)
  have run1: "copyDomainDevice 2 [example_domain] (DevP 0) example_machine
             = (Inr 1, snd (copyDomainDevice 2 [example_domain] (DevP 0) example_machine))"
    using example_run by (simp add: prod_eq_iff)
  have run2: "copyDomainDevice 2 [example_domain] (DevP 3) other_machine
             = (Inr 1, snd (copyDomainDevice 2 [example_domain] (DevP 3) other_machine))"
    using other_run by (simp add: prod_eq_iff)
  from two_builds_same_structure [OF hm example_view_host example_good example_valid_dest
         other_good other_valid_dest run1 run2]
  show ?thesis
    using hm example_view_host example_good example_valid_dest other_good other_valid_dest
      example_run other_run by simp
qed

lemma for_loop_cong:
  assumes "\<And>k a s. j \<le> k \<Longrightarrow> k < n \<Longrightarrow> body k a s = body' k a s"
  shows "for_loop j n body a s = for_loop j n body' a s"
  using assms
proof (induction "n - j" arbitrary: j a s)
  case 0
  then show ?case by (simp add: for_loop_stop)
next
  case (Suc d)
  then have lt: "j < n" by simp
  have b: "body j a s = body' j a s" using Suc.prems lt by simp
  have "for_loop (Suc j) n body a' s' = for_loop (Suc j) n body' a' s'" for a' s'
    using Suc.hyps(2) Suc.prems by (intro Suc.hyps(1)) simp_all
  then have "for_loop (Suc j) n body = for_loop (Suc j) n body'" by (intro HOL.ext)
  with lt b show ?case by (simp add: for_loop_step safeCall_def)
qed

lemma domain_body_visible:
  assumes "same_visible d d'" "domain ! i = d" "domain' ! i = d'"
  shows "domain_body numEG domain i domain_h s = domain_body numEG domain' i domain_h s"
  using assms
  by (simp add: domain_body_def same_visible_def copy_cell_state_def copy_nbrRank_def
        copy_node_def copy_cellConnectivity_def copy_cellGeometry_def)

text \<open>
  Claim C10. The device classes have no member for the neighbor-domain identifiers
  \<^verbatim>\<open>_nbrDomainGid\<close> or for the bulk-storage members, and \<^verbatim>\<open>copyDomainDevice\<close> reads
  none of them: two host inputs that differ in those members only give the same result
  and leave the same machine, hence the same mirror.
\<close>

theorem hidden_members_not_read:
  assumes "list_all2 same_visible domain domain'"
  shows "copyDomainDevice numEnergyGroups domain domain_d s
         = copyDomainDevice numEnergyGroups domain' domain_d s"
proof -
  from assms have len: "length domain = length domain'" by (rule list_all2_lengthD)
  have "for_loop 0 (length domain) (domain_body numEnergyGroups domain)
          (replicate (length domain) wild_domain) s
        = for_loop 0 (length domain) (domain_body numEnergyGroups domain')
          (replicate (length domain) wild_domain) s"
  proof (rule for_loop_cong)
    fix k a s
    assume "k < length domain"
    with assms have "same_visible (domain ! k) (domain' ! k)"
      by (simp add: list_all2_conv_all_nth)
    then show "domain_body numEnergyGroups domain k a s = domain_body numEnergyGroups domain' k a s"
      by (rule domain_body_visible) simp_all
  qed
  then show ?thesis
    unfolding copyDomainDevice_unfold len [symmetric] safeCall_def by simp
qed

theorem hidden_members_not_read_witness:
  "list_all2 same_visible [example_domain] [example_domain_other]
   \<and> example_domain \<noteq> example_domain_other
   \<and> copyDomainDevice 2 [example_domain] (DevP 0) example_machine
     = copyDomainDevice 2 [example_domain_other] (DevP 0) example_machine"
proof -
  have h: "list_all2 same_visible [example_domain] [example_domain_other]"
    by (simp add: same_visible_def example_domain_other_def)
  have d: "example_domain \<noteq> example_domain_other"
    by (simp add: example_domain_other_def example_domain_def)
  from hidden_members_not_read [OF h, of 2 "DevP 0" example_machine] h d
  show ?thesis by simp
qed

end
